theory Spec2Isabelle
  imports Complex_Main "HOL-Library.Sublist" "HOL-Library.Log_Nat"
begin

section \<open>JavaScript strings\<close>

text \<open>
  A JavaScript string is a sequence of UTF-16 code units. A code unit is modelled by its
  number, a string by the list of its code units; \<open>js\<close> turns a literal into that list.
\<close>

type_synonym jsstring = "nat list"

definition js :: "string \<Rightarrow> jsstring" where
  "js s = map of_char s"

text \<open>
  The class \<open>\s\<close> of a regular expression, which is also the set \<open>trim()\<close> strips:
  WhiteSpace and LineTerminator of ECMAScript (tab, LF, VT, FF, CR, space, NBSP, U+1680,
  U+2000 to U+200A, LS, PS, U+202F, U+205F, U+3000, U+FEFF).
\<close>

definition is_space :: "nat \<Rightarrow> bool" where
  "is_space c \<longleftrightarrow>
     (9 \<le> c \<and> c \<le> 13) \<or> c = 32 \<or> c = 160 \<or> c = 5760 \<or> (8192 \<le> c \<and> c \<le> 8202) \<or>
     c = 8232 \<or> c = 8233 \<or> c = 8239 \<or> c = 8287 \<or> c = 12288 \<or> c = 65279"

text \<open>The class \<open>\w\<close>: \<open>[A-Za-z0-9_]\<close>.\<close>

definition is_word :: "nat \<Rightarrow> bool" where
  "is_word c \<longleftrightarrow> (48 \<le> c \<and> c \<le> 57) \<or> (65 \<le> c \<and> c \<le> 90) \<or> c = 95 \<or> (97 \<le> c \<and> c \<le> 122)"

text \<open>The class \<open>[.,;:!?]\<close>.\<close>

definition is_punct :: "nat \<Rightarrow> bool" where
  "is_punct c \<longleftrightarrow> c = 46 \<or> c = 44 \<or> c = 59 \<or> c = 58 \<or> c = 33 \<or> c = 63"

text \<open>
  Matching under the flag \<open>i\<close> (without \<open>u\<close>) compares upper-cased code units, and a code
  unit from 128 on never canonicalises to an ASCII one: a pattern letter matches its two
  ASCII cases only.
\<close>

definition upper_ascii :: "nat \<Rightarrow> nat" where
  "upper_ascii c = (if 97 \<le> c \<and> c \<le> 122 then c - 32 else c)"

subsection \<open>Matchers: the length of the match of a pattern at the start of a string\<close>

fun strip_prefix :: "jsstring \<Rightarrow> jsstring \<Rightarrow> jsstring option" where
  "strip_prefix [] s = Some s"
| "strip_prefix (p # ps) [] = None"
| "strip_prefix (p # ps) (c # cs) = (if p = c then strip_prefix ps cs else None)"

fun strip_prefix_ci :: "jsstring \<Rightarrow> jsstring \<Rightarrow> jsstring option" where
  "strip_prefix_ci [] s = Some s"
| "strip_prefix_ci (p # ps) [] = None"
| "strip_prefix_ci (p # ps) (c # cs) =
     (if upper_ascii p = upper_ascii c then strip_prefix_ci ps cs else None)"

text \<open>A literal pattern such as \<open><\|endoftext\|>\<close>.\<close>

definition match_lit :: "jsstring \<Rightarrow> jsstring \<Rightarrow> nat option" where
  "match_lit p s = (case strip_prefix p s of None \<Rightarrow> None | Some _ \<Rightarrow> Some (length p))"

text \<open>
  \<open>\[\w+\]\<close>: an opening bracket, the longest run of word characters (at least one), a
  closing bracket. The run is followed by a character outside \<open>\w\<close>, so a shorter run
  never matches where the longest one does not.
\<close>

definition match_tag :: "jsstring \<Rightarrow> nat option" where
  "match_tag s =
     (case s of
        [] \<Rightarrow> None
      | c # cs \<Rightarrow>
          if c \<noteq> 91 then None
          else (let n = length (takeWhile is_word cs) in
                case drop n cs of
                  [] \<Rightarrow> None
                | d # _ \<Rightarrow> if 0 < n \<and> d = 93 then Some (n + 2) else None))"

text \<open>
  \<open>\[\s*music\s*\]\s*\<close> under the flag \<open>i\<close>; the result is the rest of the string after the
  match. Every \<open>\s*\<close> is followed by a character that is no white space, so the longest
  run is the only one that can match.
\<close>

definition match_music :: "jsstring \<Rightarrow> jsstring option" where
  "match_music s =
     (case s of
        [] \<Rightarrow> None
      | c # cs \<Rightarrow>
          if c \<noteq> 91 then None
          else (case strip_prefix_ci (js ''music'') (dropWhile is_space cs) of
                  None \<Rightarrow> None
                | Some r \<Rightarrow>
                    (case dropWhile is_space r of
                       [] \<Rightarrow> None
                     | d # ds \<Rightarrow> if d = 93 then Some (dropWhile is_space ds) else None)))"

text \<open>\<open>^\s*\[\s*music\s*\]\s*\<close>, anchored at the start of the string.\<close>

definition match_music_lead :: "jsstring \<Rightarrow> nat option" where
  "match_music_lead s =
     (case match_music (dropWhile is_space s) of
        None \<Rightarrow> None
      | Some r \<Rightarrow> Some (length s - length r))"

text \<open>\<open>\[\s*music\s*\]\s*$\<close>: the match has to reach the end of the string.\<close>

definition match_music_trail :: "jsstring \<Rightarrow> nat option" where
  "match_music_trail s =
     (case match_music s of
        None \<Rightarrow> None
      | Some r \<Rightarrow> if r = [] then Some (length s) else None)"

text \<open>\<open>\s+\<close>: the longest run of white space, at least one character.\<close>

definition match_spaces :: "jsstring \<Rightarrow> nat option" where
  "match_spaces s = (let n = length (takeWhile is_space s) in if 0 < n then Some n else None)"

text \<open>\<open>^\s*\.\s*$\<close>: the whole string is one period in optional white space.\<close>

definition match_lone_period :: "jsstring \<Rightarrow> nat option" where
  "match_lone_period s =
     (case dropWhile is_space s of
        [] \<Rightarrow> None
      | c # cs \<Rightarrow> if c = 46 \<and> dropWhile is_space cs = [] then Some (length s) else None)"

text \<open>\<open>^[.,;:!?]+\<close>.\<close>

definition match_lead_punct :: "jsstring \<Rightarrow> nat option" where
  "match_lead_punct s = (let n = length (takeWhile is_punct s) in if 0 < n then Some n else None)"

text \<open>\<open>[.,;:!?]+$\<close>: a non-empty run of punctuation that reaches the end of the string.\<close>

definition match_trail_punct :: "jsstring \<Rightarrow> nat option" where
  "match_trail_punct s = (if s \<noteq> [] \<and> list_all is_punct s then Some (length s) else None)"

subsection \<open>\<open>String.prototype.replace\<close>, \<open>trim\<close>, \<open>split\<close> and \<open>join\<close>\<close>

text \<open>
  \<open>s.replace(/p/g, r)\<close> for a pattern that matches no empty string: the matches are
  taken from left to right, and the search goes on after each match.
\<close>

function replace_all :: "(jsstring \<Rightarrow> nat option) \<Rightarrow> jsstring \<Rightarrow> jsstring \<Rightarrow> jsstring" where
  "replace_all m r [] = []"
| "replace_all m r (c # cs) =
     (case m (c # cs) of
        None \<Rightarrow> c # replace_all m r cs
      | Some n \<Rightarrow> if n = 0 then c # replace_all m r cs
                  else r @ replace_all m r (drop n (c # cs)))"
  by pat_completeness auto
termination
  by (relation "measure (\<lambda>(m, r, s). length s)") auto

text \<open>
  \<open>s.replace(/p/, r)\<close> without the flag \<open>g\<close>: the leftmost match only. The start
  positions are tried from the left, the end of the string included.
\<close>

fun replace_first :: "(jsstring \<Rightarrow> nat option) \<Rightarrow> jsstring \<Rightarrow> jsstring \<Rightarrow> jsstring" where
  "replace_first m r [] = (case m [] of None \<Rightarrow> [] | Some n \<Rightarrow> r)"
| "replace_first m r (c # cs) =
     (case m (c # cs) of
        None \<Rightarrow> c # replace_first m r cs
      | Some n \<Rightarrow> r @ drop n (c # cs))"

text \<open>The same for a pattern that starts with \<open>^\<close>: only position 0 can match.\<close>

definition replace_anchored :: "(jsstring \<Rightarrow> nat option) \<Rightarrow> jsstring \<Rightarrow> jsstring \<Rightarrow> jsstring" where
  "replace_anchored m r s = (case m s of None \<Rightarrow> s | Some n \<Rightarrow> r @ drop n s)"

definition trim :: "jsstring \<Rightarrow> jsstring" where
  "trim s = rev (dropWhile is_space (rev (dropWhile is_space s)))"

text \<open>
  \<open>s.split(/\s+/)\<close>: the pieces between the runs of white space; a run at the start or at
  the end leaves an empty piece there, and the empty string gives one empty piece.
\<close>

function split_ws_from :: "jsstring \<Rightarrow> jsstring \<Rightarrow> jsstring list" where
  "split_ws_from cur [] = [cur]"
| "split_ws_from cur (c # cs) =
     (if is_space c then cur # split_ws_from [] (dropWhile is_space cs)
      else split_ws_from (cur @ [c]) cs)"
  by pat_completeness auto
termination
  by (relation "measure (\<lambda>(cur, s). length s)")
     (auto simp: length_dropWhile_le less_Suc_eq_le)

definition split_ws :: "jsstring \<Rightarrow> jsstring list" where
  "split_ws s = split_ws_from [] s"

text \<open>\<open>xs.join(' ')\<close>.\<close>

fun join_space :: "jsstring list \<Rightarrow> jsstring" where
  "join_space [] = []"
| "join_space [w] = w"
| "join_space (w # ws) = w @ 32 # join_space ws"

section \<open>TextSanitizer: \<open>cleanWhisperOutput\<close> (shared/whisper-utils.js)\<close>

text \<open>
  The chain of \<open>replace\<close> calls on a non-empty string, in the order of the source.
\<close>

definition clean_steps :: "jsstring \<Rightarrow> jsstring" where
  "clean_steps text =
     (let t1 = replace_all (match_lit (js ''<|startoftranscript|>'')) [] text;
          t2 = replace_all (match_lit (js ''<|endoftranscript|>'')) [] t1;
          t3 = replace_all (match_lit (js ''<|endoftext|>'')) [] t2;
          t4 = replace_all (match_lit (js ''<|notimestamps|>'')) [] t3;
          t5 = replace_all (match_lit (js ''<|transcribe|>'')) [] t4;
          t6 = replace_all (match_lit (js ''<|translate|>'')) [] t5;
          t7 = replace_all (match_lit (js ''[START]'')) [] t6;
          t8 = replace_all (match_lit (js ''[END]'')) [] t7;
          t9 = replace_all match_tag [] t8;
          t10 = replace_all (match_lit (js ''[BLANK_AUDIO]'')) [] t9;
          t11 = replace_anchored match_music_lead [] t10;
          t12 = replace_first match_music_trail [] t11;
          t13 = replace_all match_spaces [32] t12;
          t14 = replace_anchored match_lone_period [] t13;
          t15 = replace_anchored match_lead_punct [] t14;
          t16 = replace_first match_trail_punct [] t15
      in trim t16)"

text \<open>
  The argument is \<open>None\<close> for \<open>null\<close> or \<open>undefined\<close>; \<open>!text\<close> holds for these and for
  the empty string.
\<close>

definition cleanWhisperOutput :: "jsstring option \<Rightarrow> jsstring" where
  "cleanWhisperOutput text =
     (case text of
        None \<Rightarrow> []
      | Some t \<Rightarrow> if t = [] then [] else clean_steps t)"

text \<open>
  The older popup script defines its own \<open>cleanWhisperOutput\<close>, which the transcriber with
  the custom chunking calls: the same chain without the steps for \<open>[BLANK_AUDIO]\<close> and
  \<open>[music]\<close>.
\<close>

definition clean_steps_popup :: "jsstring \<Rightarrow> jsstring" where
  "clean_steps_popup text =
     (let t1 = replace_all (match_lit (js ''<|startoftranscript|>'')) [] text;
          t2 = replace_all (match_lit (js ''<|endoftranscript|>'')) [] t1;
          t3 = replace_all (match_lit (js ''<|endoftext|>'')) [] t2;
          t4 = replace_all (match_lit (js ''<|notimestamps|>'')) [] t3;
          t5 = replace_all (match_lit (js ''<|transcribe|>'')) [] t4;
          t6 = replace_all (match_lit (js ''<|translate|>'')) [] t5;
          t7 = replace_all (match_lit (js ''[START]'')) [] t6;
          t8 = replace_all (match_lit (js ''[END]'')) [] t7;
          t9 = replace_all match_tag [] t8;
          t10 = replace_all match_spaces [32] t9;
          t11 = replace_anchored match_lone_period [] t10;
          t12 = replace_anchored match_lead_punct [] t11;
          t13 = replace_first match_trail_punct [] t12
      in trim t13)"

definition cleanWhisperOutput_popup :: "jsstring option \<Rightarrow> jsstring" where
  "cleanWhisperOutput_popup text =
     (case text of
        None \<Rightarrow> []
      | Some t \<Rightarrow> if t = [] then [] else clean_steps_popup t)"

section \<open>Errors and numbers\<close>

text \<open>An exception: its name and its message.\<close>

datatype error = Exception string string

definition message :: "error \<Rightarrow> jsstring" where
  "message e = (case e of Exception name msg \<Rightarrow> js msg)"

definition RangeError :: error where
  "RangeError = Exception ''RangeError'' ''Invalid typed array length: Infinity''"

definition IndexSizeError :: error where
  "IndexSizeError = Exception ''IndexSizeError'' ''The index is not in the allowed range.''"

definition ReferenceError :: "string \<Rightarrow> error" where
  "ReferenceError name = Exception ''ReferenceError'' (name @ '' is not defined'')"

definition Error :: "string \<Rightarrow> error" where
  "Error msg = Exception ''Error'' msg"

text \<open>
  The value of \<open>a / b\<close> on integers, of \<open>Math.ceil\<close> and of \<open>+ 1\<close>: a division by zero
  gives an infinity or NaN instead of raising.
\<close>

datatype jsnum = Finite int | PosInfinity | NegInfinity | NotANumber

definition js_div :: "int \<Rightarrow> int \<Rightarrow> rat + jsnum" where
  "js_div a b =
     (if b \<noteq> 0 then Inl (of_int a / of_int b)
      else if 0 < a then Inr PosInfinity
      else if a < 0 then Inr NegInfinity
      else Inr NotANumber)"

definition js_ceil :: "rat + jsnum \<Rightarrow> jsnum" where
  "js_ceil q = (case q of Inl x \<Rightarrow> Finite \<lceil>x\<rceil> | Inr n \<Rightarrow> n)"

definition js_succ :: "jsnum \<Rightarrow> jsnum" where
  "js_succ n = (case n of Finite k \<Rightarrow> Finite (k + 1) | PosInfinity \<Rightarrow> PosInfinity
     | NegInfinity \<Rightarrow> NegInfinity | NotANumber \<Rightarrow> NotANumber)"

text \<open>
  How often \<open>for (let i = 0; i < n; i++)\<close> runs its body when the body neither breaks
  nor throws: \<open>None\<close> stands for a loop that does not end.
\<close>

definition iterations :: "jsnum \<Rightarrow> nat option" where
  "iterations n =
     (case n of Finite k \<Rightarrow> Some (nat k) | PosInfinity \<Rightarrow> None
      | NegInfinity \<Rightarrow> Some 0 | NotANumber \<Rightarrow> Some 0)"

subsection \<open>Double precision\<close>

text \<open>
  A JavaScript number is a double: a quotient or a product is the exact value rounded to
  the nearest number with a significand of 53 bits, a tie going to the even significand.
  \<open>exponent x\<close> is the binary exponent of a positive \<open>x\<close>, the \<open>e\<close> with
  \<open>2^e \<le> x < 2^(e+1)\<close>, and \<open>to_double x\<close> is \<open>x\<close> rounded. The range of the exponent of a
  double is left out: the quotients and products taken here, of sample rates, lengths and
  indices, which are integers below \<open>2^53\<close>, lie far inside it.
\<close>

definition exponent :: "rat \<Rightarrow> int" where
  "exponent x =
     (if 1 \<le> x then int (floorlog 2 (nat \<lfloor>x\<rfloor>)) - 1
      else - int (floorlog 2 (nat (\<lceil>1 / x\<rceil> - 1))))"

definition round_even :: "rat \<Rightarrow> int" where
  "round_even q =
     (let f = \<lfloor>q\<rfloor>; r = q - of_int f
      in if r < 1 / 2 then f else if 1 / 2 < r then f + 1 else if even f then f else f + 1)"

definition to_double :: "rat \<Rightarrow> rat" where
  "to_double x =
     (if x = 0 then 0
      else (let ulp = 2 powi (exponent \<bar>x\<bar> - 52)
            in sgn x * of_int (round_even (\<bar>x\<bar> / ulp)) * ulp))"

section \<open>AudioNormalizer: \<open>processAudioBlob\<close>\<close>

text \<open>
  An element of a \<open>Float32Array\<close>: a number or NaN. A decoded \<open>AudioBuffer\<close> has its
  channels, all of one length, and its sample rate.
\<close>

datatype sample = Val rat | NaN

record audio_buffer =
  channels :: "sample list list"
  sampleRate :: nat

text \<open>Reading a typed array: an index out of range reads \<open>undefined\<close>, stored as NaN.\<close>

definition read_sample :: "sample list \<Rightarrow> int \<Rightarrow> sample" where
  "read_sample xs k = (if 0 \<le> k \<and> k < int (length xs) then xs ! nat k else NaN)"

text \<open>
  The loop \<open>for (let i = 0; i < newLength; i++) finalAudioData[i] =
  audioData[Math.floor(i * ratio)]\<close>. The product \<open>i * ratio\<close> is a double.
\<close>

function resample_loop :: "rat \<Rightarrow> sample list \<Rightarrow> nat \<Rightarrow> nat \<Rightarrow> sample list \<Rightarrow> sample list" where
  "resample_loop ratio audioData newLength i finalAudioData =
     (if i < newLength
      then resample_loop ratio audioData newLength (i + 1)
             (finalAudioData[i := read_sample audioData \<lfloor>to_double (of_nat i * ratio)\<rfloor>])
      else finalAudioData)"
  by pat_completeness auto
termination
  by (relation "measure (\<lambda>(ratio, audioData, newLength, i, out). newLength - i)") auto

text \<open>
  \<open>ratio = sampleRate / 16000\<close>, \<open>newLength = Math.floor(length / ratio)\<close>, a fresh array of
  zeros of that length, then the loop. Both quotients are doubles. A sample rate of 0
  divides by zero: the length is infinite and \<open>new Float32Array\<close> raises a RangeError, or
  it is NaN for an empty input, which gives an empty array. Any other length is taken
  to be one that a typed array can have.
\<close>

definition resample :: "nat \<Rightarrow> sample list \<Rightarrow> error + sample list" where
  "resample rate audioData =
     (let ratio = to_double (of_nat rate / 16000) in
      if ratio = 0 then (if audioData = [] then Inr [] else Inl RangeError)
      else (let newLength = nat \<lfloor>to_double (of_nat (length audioData) / ratio)\<rfloor>
            in Inr (resample_loop ratio audioData newLength 0 (replicate newLength (Val 0)))))"

text \<open>
  \<open>processAudioBlob\<close>: the decoding may fail; the audio data are those of channel 0,
  resampled when the rate is not 16000.
\<close>

definition processAudioBlob :: "error + audio_buffer \<Rightarrow> error + sample list" where
  "processAudioBlob decoded =
     (case decoded of
        Inl e \<Rightarrow> Inl e
      | Inr audioBuffer \<Rightarrow>
          (case channels audioBuffer of
             [] \<Rightarrow> Inl IndexSizeError
           | audioData # _ \<Rightarrow>
               if sampleRate audioBuffer \<noteq> 16000 then resample (sampleRate audioBuffer) audioData
               else Inr audioData))"

text \<open>
  The mono data \<open>processLongRecording\<close> builds: the mean of channels 0 and 1 when there
  is more than one channel, channel 0 otherwise. The sum and the halving are taken
  exactly; the rounding of the stored value to single precision is left out.
\<close>

fun mean2 :: "sample \<Rightarrow> sample \<Rightarrow> sample" where
  "mean2 (Val a) (Val b) = Val ((a + b) / 2)"
| "mean2 _ _ = NaN"

definition mono_mix :: "audio_buffer \<Rightarrow> error + sample list" where
  "mono_mix audioBuffer =
     (case channels audioBuffer of
        [] \<Rightarrow> Inl IndexSizeError
      | leftChannel # others \<Rightarrow>
          (case others of
             [] \<Rightarrow> Inr leftChannel
           | rightChannel # _ \<Rightarrow>
               Inr (map (\<lambda>i. mean2 (read_sample leftChannel (int i)) (read_sample rightChannel (int i)))
                      [0..<length leftChannel])))"

section \<open>The transcriber with custom chunking\<close>

subsection \<open>Segmenter\<close>

text \<open>
  The options of a call (\<open>None\<close> for a missing field) and the merged options:
  \<open>options.chunk_length_s || 20\<close> takes the default for a missing field and for 0.
\<close>

record options =
  opt_chunk_length_s :: "nat option"
  opt_stride_length_s :: "nat option"
  opt_max_new_tokens :: "nat option"
  opt_return_timestamps :: "bool option"

record chunk_options =
  chunk_length_s :: nat
  stride_length_s :: nat
  max_new_tokens :: nat
  return_timestamps :: bool

definition or_default :: "nat option \<Rightarrow> nat \<Rightarrow> nat" where
  "or_default v d = (case v of None \<Rightarrow> d | Some n \<Rightarrow> if n = 0 then d else n)"

definition merge_options :: "options \<Rightarrow> chunk_options" where
  "merge_options opts =
     \<lparr>chunk_length_s = or_default (opt_chunk_length_s opts) 20,
      stride_length_s = or_default (opt_stride_length_s opts) 5,
      max_new_tokens = or_default (opt_max_new_tokens opts) 448,
      return_timestamps = (case opt_return_timestamps opts of None \<Rightarrow> True | Some b \<Rightarrow> b)\<rparr>"

text \<open>\<open>estimatedDuration = audioData.length / 16000\<close>, in seconds.\<close>

definition estimatedDuration :: "nat \<Rightarrow> rat" where
  "estimatedDuration len = of_nat len / 16000"

text \<open>
  \<open>adjustedChunkSize\<close> and \<open>adjustedStrideSize\<close> in samples: the sizes of the options,
  replaced by 25 s and 3 s for more than two minutes of audio.
\<close>

definition adjusted_sizes :: "chunk_options \<Rightarrow> nat \<Rightarrow> int \<times> int" where
  "adjusted_sizes chunkOptions len =
     (let sampleRate = 16000;
          chunkSizeSamples = int (chunk_length_s chunkOptions) * sampleRate;
          strideSizeSamples = int (stride_length_s chunkOptions) * sampleRate
      in if estimatedDuration len > 120 then (25 * sampleRate, 3 * sampleRate)
         else (chunkSizeSamples, strideSizeSamples))"

text \<open>
  \<open>numChunks = Math.ceil((audioData.length - adjustedChunkSize) /
  (adjustedChunkSize - adjustedStrideSize)) + 1\<close>.
\<close>

definition numChunks :: "int \<times> int \<Rightarrow> nat \<Rightarrow> jsnum" where
  "numChunks sizes len =
     (case sizes of (adjustedChunkSize, adjustedStrideSize) \<Rightarrow>
        js_succ (js_ceil (js_div (int len - adjustedChunkSize) (adjustedChunkSize - adjustedStrideSize))))"

text \<open>Window \<open>i\<close>: \<open>startSample\<close> and \<open>endSample\<close>.\<close>

definition chunk_bounds :: "int \<times> int \<Rightarrow> nat \<Rightarrow> nat \<Rightarrow> int \<times> int" where
  "chunk_bounds sizes len i =
     (case sizes of (adjustedChunkSize, adjustedStrideSize) \<Rightarrow>
        (let startSample = int i * (adjustedChunkSize - adjustedStrideSize);
             endSample = min (startSample + adjustedChunkSize) (int len)
         in (startSample, endSample)))"

text \<open>The windows of a loop that ends, in the order of the loop.\<close>

definition segment :: "chunk_options \<Rightarrow> nat \<Rightarrow> (int \<times> int) list option" where
  "segment chunkOptions len =
     (let sizes = adjusted_sizes chunkOptions len in
      case iterations (numChunks sizes len) of
        None \<Rightarrow> None
      | Some n \<Rightarrow> Some (map (chunk_bounds sizes len) [0..<n]))"

text \<open>
  \<open>audioData.slice(b, e)\<close> of a typed array: a negative index counts from the end, and
  both are clamped to the array.
\<close>

definition js_slice :: "int \<Rightarrow> int \<Rightarrow> 'a list \<Rightarrow> 'a list" where
  "js_slice b e xs =
     (let n = int (length xs);
          k = (if b < 0 then max (n + b) 0 else min b n);
          final = (if e < 0 then max (n + e) 0 else min e n)
      in take (nat (final - k)) (drop (nat k) xs))"

subsection \<open>StitchingAssembler\<close>

text \<open>
  \<open>lastWords\<close> is a \<open>Set\<close>: its elements in the order of their insertion, each once.
  \<open>add\<close> of an element that is present changes nothing; \<open>delete\<close> removes the element.
\<close>

definition set_add :: "'a \<Rightarrow> 'a list \<Rightarrow> 'a list" where
  "set_add x s = (if x \<in> set s then s else s @ [x])"

definition set_delete :: "'a \<Rightarrow> 'a list \<Rightarrow> 'a list" where
  "set_delete x s = removeAll x s"

text \<open>
  The body of \<open>for (const word of words)\<close> on the pair of \<open>uniqueWords\<close> and
  \<open>lastWords\<close>.
\<close>

fun dedup_word :: "jsstring \<Rightarrow> jsstring list \<times> jsstring list \<Rightarrow> jsstring list \<times> jsstring list" where
  "dedup_word word (uniqueWords, lastWords) =
     (let repetitionCount = length (filter (\<lambda>w. w = word) lastWords) in
      if repetitionCount < 3
      then (let added = set_add word lastWords;
                kept = (if length added > 20
                        then (case added of [] \<Rightarrow> added | oldest # _ \<Rightarrow> set_delete oldest added)
                        else added)
            in (uniqueWords @ [word], kept))
      else (uniqueWords, lastWords))"

text \<open>
  The part of the loop body after the cleaning, on the pair of \<open>fullTranscription\<close> and
  \<open>lastWords\<close>.
\<close>

definition ends_with_space :: "jsstring \<Rightarrow> bool" where
  "ends_with_space s = (case rev s of [] \<Rightarrow> False | c # _ \<Rightarrow> c = 32)"

definition append_chunk :: "jsstring \<Rightarrow> jsstring list \<Rightarrow> jsstring" where
  "append_chunk fullTranscription uniqueWords =
     (if length uniqueWords > 0
      then fullTranscription
             @ (if fullTranscription \<noteq> [] \<and> \<not> ends_with_space fullTranscription then [32] else [])
             @ join_space uniqueWords
      else fullTranscription)"

fun stitch_chunk :: "jsstring \<Rightarrow> jsstring \<times> jsstring list \<Rightarrow> jsstring \<times> jsstring list" where
  "stitch_chunk cleanedChunk (fullTranscription, lastWords) =
     (if cleanedChunk = [] then (fullTranscription, lastWords)
      else (let words = split_ws cleanedChunk;
                deduped = fold dedup_word words ([], lastWords)
            in (append_chunk fullTranscription (fst deduped), snd deduped)))"

text \<open>\<open>assemble\<close>: the stitching of the cleaned texts of the windows, from the empty state.\<close>

definition assemble :: "jsstring list \<Rightarrow> jsstring" where
  "assemble cleanedChunks = fst (fold stitch_chunk cleanedChunks ([], []))"

subsection \<open>The transcriber\<close>

text \<open>
  The inference engine: the processor, \<open>model.generate\<close> and the decoding of its output,
  as one function of the options and the samples that yields the decoded text (\<open>None\<close>
  for \<open>undefined\<close>) or the error that one of the three raised.
\<close>

type_synonym engine = "chunk_options \<Rightarrow> sample list \<Rightarrow> error + jsstring option"

definition text_or :: "jsstring \<Rightarrow> jsstring \<Rightarrow> jsstring" where
  "text_or t placeholder = (if t = [] then placeholder else t)"

text \<open>The loop over the windows: an error of the engine leaves the loop.\<close>

fun chunk_loop ::
  "engine \<Rightarrow> chunk_options \<Rightarrow> sample list \<Rightarrow> (int \<times> int) list \<Rightarrow> jsstring \<times> jsstring list
     \<Rightarrow> error + jsstring \<times> jsstring list" where
  "chunk_loop eng chunkOptions audioData [] st = Inr st"
| "chunk_loop eng chunkOptions audioData ((startSample, endSample) # ws) st =
     (case eng chunkOptions (js_slice startSample endSample audioData) of
        Inl e \<Rightarrow> Inl e
      | Inr chunkTranscription \<Rightarrow>
          chunk_loop eng chunkOptions audioData ws
            (stitch_chunk (cleanWhisperOutput_popup chunkTranscription) st))"

text \<open>
  The options of the short path: \<open>chunk_length_s: 30\<close>, \<open>stride_length_s: 10\<close>,
  \<open>max_new_tokens: 448\<close>, \<open>return_timestamps: true\<close>.
\<close>

definition short_options :: chunk_options where
  "short_options = \<lparr>chunk_length_s = 30, stride_length_s = 10, max_new_tokens = 448,
     return_timestamps = True\<rparr>"

text \<open>
  The transcriber after \<open>processAudioBlob\<close>. More than 25 seconds go through the windows;
  when the number of windows is infinite every window is the first one, so the loop
  leaves with the error of the engine on it or never ends (\<open>None\<close>). Anything shorter is
  one call of the engine on the whole buffer.
\<close>

definition transcribe_samples :: "engine \<Rightarrow> options \<Rightarrow> sample list \<Rightarrow> (error + jsstring) option" where
  "transcribe_samples eng opts audioData =
     (if estimatedDuration (length audioData) > 25
      then (let chunkOptions = merge_options opts;
                sizes = adjusted_sizes chunkOptions (length audioData)
            in case segment chunkOptions (length audioData) of
                 None \<Rightarrow>
                   (case chunk_loop eng chunkOptions audioData
                           [chunk_bounds sizes (length audioData) 0] ([], []) of
                      Inl e \<Rightarrow> Some (Inl e)
                    | Inr _ \<Rightarrow> None)
               | Some ws \<Rightarrow>
                   (case chunk_loop eng chunkOptions audioData ws ([], []) of
                      Inl e \<Rightarrow> Some (Inl e)
                    | Inr (fullTranscription, _) \<Rightarrow>
                        Some (Inr (text_or fullTranscription (js ''[Empty transcription]'')))))
      else (case eng short_options audioData of
              Inl e \<Rightarrow> Some (Inl e)
            | Inr transcription \<Rightarrow>
                Some (Inr (text_or (cleanWhisperOutput_popup transcription)
                             (js ''[Empty transcription]'')))))"

definition transcriber :: "engine \<Rightarrow> error + audio_buffer \<Rightarrow> options \<Rightarrow> (error + jsstring) option" where
  "transcriber eng decoded opts =
     (case processAudioBlob decoded of
        Inl e \<Rightarrow> Some (Inl e)
      | Inr audioData \<Rightarrow> transcribe_samples eng opts audioData)"

section \<open>\<open>processLongRecording\<close> (popup/popup.js)\<close>

text \<open>
  What the function finds around it: the size of the blob, whether \<open>transcriber\<close> is a
  function, the duration estimated from the clock, the decoding of the blob by the Web
  Audio API, the making of the blob of a chunk (\<open>createBuffer\<close> and
  \<open>audioBufferToBlob\<close>) and the calls of the transcriber. A call of the transcriber
  raises or returns; \<open>None\<close> stands for a result without text.
\<close>

record chunk_request =
  startTime :: int
  endTime :: int
  frames :: int
  startSample :: int
  endSample :: int

datatype request = Direct | WithOptions options | Chunk chunk_request

record environment =
  blob_size :: nat
  transcriber_is_function :: bool
  clock_duration :: rat
  decodeAudioData :: "error + audio_buffer"
  chunk_blob :: "chunk_request \<Rightarrow> error option"
  transcribe :: "request \<Rightarrow> error + jsstring option"

text \<open>\<open>transcriptionEl.value += (transcriptionEl.value ? '\n' : '') + text\<close>.\<close>

definition append_line :: "jsstring \<Rightarrow> jsstring \<Rightarrow> jsstring" where
  "append_line v t = v @ (if v \<noteq> [] then [10] else []) @ t"

text \<open>
  The chunk of index \<open>i\<close>: \<open>startTime\<close>, \<open>endTime\<close> and \<open>chunkLength\<close> count samples; the
  length of the chunk buffer and the two sample positions multiply them by the sample
  rate once more.
\<close>

definition chunk_of :: "nat \<Rightarrow> nat \<Rightarrow> nat \<Rightarrow> chunk_request" where
  "chunk_of rate totalSamples i =
     (let samplesPerChunk = 30 * int rate;
          start = int i * samplesPerChunk;
          end' = min ((int i + 1) * samplesPerChunk) (int totalSamples);
          chunkLength = end' - start
      in \<lparr>startTime = start, endTime = end', frames = chunkLength * int rate,
          startSample = start * int rate, endSample = end' * int rate\<rparr>)"

definition chunkLength :: "chunk_request \<Rightarrow> int" where
  "chunkLength c = endTime c - startTime c"

text \<open>\<open>if (chunkLength < 0.5) continue\<close>.\<close>

definition skipped :: "chunk_request \<Rightarrow> bool" where
  "skipped c \<longleftrightarrow> (of_int (chunkLength c) :: rat) < 1 / 2"

text \<open>
  The body of the loop over the chunks on the pair of \<open>fullTranscription\<close> and
  \<open>transcriptionEl.value\<close>, with the error that leaves the loop, if any. An error from the
  making of the blob leaves the loop; an error of the transcriber is caught inside the
  body and the loop goes on.
\<close>

fun chunk_step :: "environment \<Rightarrow> chunk_request \<Rightarrow> jsstring \<times> jsstring \<Rightarrow> error option \<times> jsstring \<times> jsstring" where
  "chunk_step env c (fullTranscription, v) =
     (if skipped c then (None, fullTranscription, v)
      else (case chunk_blob env c of
              Some e \<Rightarrow> (Some e, fullTranscription, v)
            | None \<Rightarrow>
                (case transcribe env (Chunk c) of
                   Inl chunkError \<Rightarrow> (None, fullTranscription, v)
                 | Inr result \<Rightarrow>
                     (case result of
                        None \<Rightarrow> (None, fullTranscription, v)
                      | Some t \<Rightarrow>
                          if t = [] then (None, fullTranscription, v)
                          else (let chunkText = cleanWhisperOutput (Some t) in
                                if chunkText = [] then (None, fullTranscription, v)
                                else (let full = fullTranscription
                                             @ (if fullTranscription \<noteq> [] then [32] else [])
                                             @ chunkText
                                      in (None, full, full @ js '' [transcribing...]'')))))))"

fun chunks_loop :: "environment \<Rightarrow> chunk_request list \<Rightarrow> jsstring \<times> jsstring \<Rightarrow> error option \<times> jsstring \<times> jsstring" where
  "chunks_loop env [] st = (None, st)"
| "chunks_loop env (c # cs) st =
     (case chunk_step env c st of
        (Some e, st') \<Rightarrow> (Some e, st')
      | (None, st') \<Rightarrow> chunks_loop env cs st')"

text \<open>
  The Web Audio path: decoding, the mono data (of which the loop uses the length), the
  loop, the final update of the transcript. Any error goes to \<open>catch (audioError)\<close>,
  which appends a note to the transcript. With a sample rate of 0 and samples to process
  the number of chunks is infinite and every chunk is skipped: the loop does not end
  (\<open>None\<close>).
\<close>

definition audio_error :: "jsstring \<Rightarrow> error \<Rightarrow> jsstring" where
  "audio_error v e = append_line v (js ''[Error processing audio: '' @ message e @ js '']'')"

definition web_audio_path :: "environment \<Rightarrow> jsstring \<Rightarrow> jsstring option" where
  "web_audio_path env v =
     (case decodeAudioData env of
        Inl e \<Rightarrow> Some (audio_error v e)
      | Inr audioBuffer \<Rightarrow>
          (case mono_mix audioBuffer of
             Inl e \<Rightarrow> Some (audio_error v e)
           | Inr audioData \<Rightarrow>
               (let rate = sampleRate audioBuffer;
                    totalSamples = length audioData;
                    n = js_ceil (js_div (int totalSamples) (30 * int rate))
                in case iterations n of
                     None \<Rightarrow> None
                   | Some k \<Rightarrow>
                       (case chunks_loop env (map (chunk_of rate totalSamples) [0..<k]) ([], v) of
                          (Some e, fullTranscription, v') \<Rightarrow> Some (audio_error v' e)
                        | (None, fullTranscription, v') \<Rightarrow>
                            if fullTranscription \<noteq> [] then Some fullTranscription
                            else Some (append_line v' (js ''[No speech detected]''))))))"

text \<open>
  An attempt on the whole recording: the cleaned text, if the transcriber returns one
  that is not empty.
\<close>

definition whole_attempt :: "environment \<Rightarrow> request \<Rightarrow> jsstring option" where
  "whole_attempt env r =
     (case transcribe env r of
        Inl e \<Rightarrow> None
      | Inr result \<Rightarrow>
          (case result of
             None \<Rightarrow> None
           | Some t \<Rightarrow>
               if t = [] then None
               else (let cleanedText = cleanWhisperOutput (Some t) in
                     if cleanedText = [] then None else Some cleanedText)))"

definition long_options :: options where
  "long_options = \<lparr>opt_chunk_length_s = Some 30, opt_stride_length_s = Some 10,
     opt_max_new_tokens = Some 448, opt_return_timestamps = Some True\<rparr>"

text \<open>
  The function on the transcript: the error it raises, if any, and the new transcript;
  \<open>None\<close> when the loop over the chunks does not end.
\<close>

definition recording_error :: "jsstring \<Rightarrow> error \<Rightarrow> error option \<times> jsstring" where
  "recording_error v e =
     (Some e, append_line v (js ''[Error processing recording: '' @ message e @ js '']''))"

definition processLongRecording :: "environment \<Rightarrow> jsstring \<Rightarrow> (error option \<times> jsstring) option" where
  "processLongRecording env v =
     (if blob_size env = 0 then Some (recording_error v (Error ''Empty audio recording''))
      else if \<not> transcriber_is_function env
      then Some (recording_error v (Error ''Transcriber is not properly initialized''))
      else (case (if clock_duration env < 15 then whole_attempt env Direct else None) of
              Some cleanedText \<Rightarrow> Some (None, cleanedText)
            | None \<Rightarrow>
                (case whole_attempt env (WithOptions long_options) of
                   Some cleanedText \<Rightarrow> Some (None, cleanedText)
                 | None \<Rightarrow> map_option (Pair None) (web_audio_path env v))))"

section \<open>\<open>processRecording\<close> (popup/popup.js)\<close>

text \<open>
  The names a block can see are those of the blocks around it. A scope lists the names
  it declares with their values; a name that no scope of the chain declares raises a
  ReferenceError.
\<close>

datatype jsval = Number rat | Object

type_synonym scope = "(string \<times> jsval) list"

fun lookup :: "string \<Rightarrow> scope list \<Rightarrow> error + jsval" where
  "lookup name [] = Inl (ReferenceError name)"
| "lookup name (sc # chain) =
     (case map_of sc name of Some v \<Rightarrow> Inr v | None \<Rightarrow> lookup name chain)"

text \<open>\<open>Math.min(v, n)\<close>: NaN, here \<open>None\<close>, for a value that is no number.\<close>

definition math_min :: "jsval \<Rightarrow> rat \<Rightarrow> rat option" where
  "math_min v n = (case v of Number d \<Rightarrow> Some (min d n) | Object \<Rightarrow> None)"

definition objects :: "string list \<Rightarrow> scope" where
  "objects names = map (\<lambda>n. (n, Object)) names"

text \<open>The global names the function uses, and the declarations of the module.\<close>

definition global_scope :: scope where
  "global_scope = objects [''console'', ''Math'', ''Date'', ''Error'', ''URL'', ''Audio'',
     ''Promise'', ''fetch'', ''window'', ''document'', ''chrome'', ''Float32Array'',
     ''read_audio'']"

definition module_scope :: scope where
  "module_scope = objects [''pipeline'', ''env'', ''loadWhisperModel'', ''loadStandardModel'',
     ''cleanWhisperOutput'', ''transcriber'', ''processor'', ''model'', ''recording'',
     ''mediaRecorder'', ''audioChunks'', ''selectedModel'', ''recordingTimer'',
     ''recordingStartTime'', ''loadingProgress'', ''isWhisperModel'', ''audioContext'',
     ''analyser'', ''dataArray'', ''canvas'', ''canvasCtx'', ''animationId'',
     ''visualizerInitialized'', ''recordBtn'', ''transcriptionEl'', ''copyBtn'', ''clearBtn'',
     ''modelSelect'', ''statusEl'', ''timerEl'', ''modelInfoEl'', ''progressBar'',
     ''progressCallback'', ''initializeModel'', ''formatTime'', ''updateTimer'',
     ''initVisualizer'', ''drawWaveform'', ''toggleRecording'', ''stopRecording'',
     ''processRecording'', ''processLongRecording'', ''audioBufferToBlob'', ''bufferToWav'',
     ''writeString'', ''copyTranscription'', ''clearTranscription'', ''changeModel'',
     ''saveSettings'', ''loadSettings'', ''loadUserPreferences'', ''darkModeCheckbox'',
     ''saveSettingsBtn'', ''saveTranscriptionToHistory'']"

definition function_scope :: scope where
  "function_scope = objects [''audioBlob'']"

text \<open>
  The block of \<open>try\<close> declares \<open>audioArrayBuffer\<close>, \<open>estimatedDuration\<close> and \<open>result\<close>
  for itself. The block of \<open>catch\<close> has \<open>error\<close>, and the \<open>try\<close> inside it declares
  \<open>pipeline\<close>, \<open>tempTranscriber\<close> and \<open>fallbackResult\<close>; around them are the function,
  the module and the global names.
\<close>

definition fallback_chain :: "scope list" where
  "fallback_chain =
     [objects [''pipeline'', ''tempTranscriber'', ''fallbackResult''],
      objects [''error''],
      function_scope, module_scope, global_scope]"

text \<open>
  What the function finds besides the environment of \<open>processLongRecording\<close>: the result
  of \<open>audioBlob.arrayBuffer()\<close>, of the dynamic import, of the creation of the temporary
  pipeline with a chunk length, and of its call.
\<close>

record fallback_environment =
  arrayBuffer :: "error option"
  import_transformers :: "error option"
  create_pipeline :: "rat option \<Rightarrow> error option"
  tempTranscriber :: "error + jsstring option"

datatype event =
    CallTranscriber
  | ImportTransformers
  | CreatePipeline
  | CallTempTranscriber
  | CallProcessLongRecording

text \<open>
  A run yields the error raised, if any, the transcript, and the calls made in their
  order; \<open>None\<close> when a loop of \<open>processLongRecording\<close> does not end.
\<close>

type_synonym outcome = "(error option \<times> jsstring \<times> event list) option"

definition no_speech :: "jsstring \<Rightarrow> jsstring" where
  "no_speech v = append_line v (js ''[No speech detected]'')"

definition add_text :: "jsstring \<Rightarrow> jsstring \<Rightarrow> jsstring" where
  "add_text v cleanedText =
     (if trim cleanedText \<noteq> [] then append_line v cleanedText else no_speech v)"

definition call_long :: "environment \<Rightarrow> jsstring \<Rightarrow> event list \<Rightarrow> outcome" where
  "call_long env v evs =
     (case processLongRecording env v of
        None \<Rightarrow> None
      | Some (e, v') \<Rightarrow> Some (e, v', evs @ [CallProcessLongRecording]))"

text \<open>The block of \<open>try\<close>.\<close>

definition direct_attempt :: "environment \<Rightarrow> fallback_environment \<Rightarrow> jsstring \<Rightarrow> outcome" where
  "direct_attempt env fenv v =
     (case arrayBuffer fenv of
        Some e \<Rightarrow> Some (Some e, v, [])
      | None \<Rightarrow>
          if \<not> transcriber_is_function env
          then Some (Some (Error ''Transcriber is not a function. Model may not be properly loaded.''), v, [])
          else (let estimated = clock_duration env in
                if estimated > 25 then call_long env v []
                else (case transcribe env Direct of
                        Inl e \<Rightarrow> Some (Some e, v, [CallTranscriber])
                      | Inr result \<Rightarrow>
                          (case result of
                             None \<Rightarrow> Some (None, no_speech v, [CallTranscriber])
                           | Some t \<Rightarrow>
                               if t = [] then Some (None, no_speech v, [CallTranscriber])
                               else Some (None, add_text v (cleanWhisperOutput (Some t)),
                                          [CallTranscriber])))))"

text \<open>
  The \<open>try\<close> inside \<open>catch\<close>: the import, then the arguments of \<open>pipeline(...)\<close>, which
  read \<open>selectedModel\<close>, \<open>Math\<close> and \<open>estimatedDuration\<close> before the call, then the
  temporary transcriber.
\<close>

definition fallback_attempt :: "fallback_environment \<Rightarrow> jsstring \<Rightarrow> event list \<Rightarrow> error option \<times> jsstring \<times> event list" where
  "fallback_attempt fenv v evs =
     (case import_transformers fenv of
        Some e \<Rightarrow> (Some e, v, evs @ [ImportTransformers])
      | None \<Rightarrow>
          (case lookup ''selectedModel'' fallback_chain of
             Inl e \<Rightarrow> (Some e, v, evs @ [ImportTransformers])
           | Inr _ \<Rightarrow>
               (case lookup ''Math'' fallback_chain of
                  Inl e \<Rightarrow> (Some e, v, evs @ [ImportTransformers])
                | Inr _ \<Rightarrow>
                    (case lookup ''estimatedDuration'' fallback_chain of
                       Inl e \<Rightarrow> (Some e, v, evs @ [ImportTransformers])
                     | Inr estimated \<Rightarrow>
                         (case create_pipeline fenv (math_min estimated 20) of
                            Some e \<Rightarrow> (Some e, v, evs @ [ImportTransformers, CreatePipeline])
                          | None \<Rightarrow>
                              (let evs' = evs @ [ImportTransformers, CreatePipeline,
                                                 CallTempTranscriber] in
                               case tempTranscriber fenv of
                                 Inl e \<Rightarrow> (Some e, v, evs')
                               | Inr result \<Rightarrow>
                                   (case result of
                                      None \<Rightarrow> (Some (Error ''Fallback transcription failed''), v, evs')
                                    | Some t \<Rightarrow>
                                        if t = []
                                        then (Some (Error ''Fallback transcription failed''), v, evs')
                                        else (None, add_text v (cleanWhisperOutput (Some t)),
                                              evs'))))))))"

text \<open>
  The whole function: the block of \<open>try\<close>; on an error the fallback; on an error of the
  fallback \<open>processLongRecording\<close> as the last resort, whose error is replaced by the
  original one.
\<close>

definition processRecording :: "environment \<Rightarrow> fallback_environment \<Rightarrow> jsstring \<Rightarrow> outcome" where
  "processRecording env fenv v =
     (case direct_attempt env fenv v of
        None \<Rightarrow> None
      | Some (None, v1, evs1) \<Rightarrow> Some (None, v1, evs1)
      | Some (Some error, v1, evs1) \<Rightarrow>
          (case fallback_attempt fenv v1 evs1 of
             (None, v2, evs2) \<Rightarrow> Some (None, v2, evs2)
           | (Some fallbackError, v2, evs2) \<Rightarrow>
               (case call_long env v2 evs2 of
                  None \<Rightarrow> None
                | Some (None, v3, evs3) \<Rightarrow> Some (None, v3, evs3)
                | Some (Some lastError, v3, evs3) \<Rightarrow> Some (Some error, v3, evs3))))"

section \<open>Clean form\<close>

text \<open>
  A string whose white space is single spaces only: every white-space character is
  U+0020 and is followed by a character that is no white space, or by the end.
\<close>

fun single_spaced :: "jsstring \<Rightarrow> bool" where
  "single_spaced [] = True"
| "single_spaced [c] = (is_space c \<longrightarrow> c = 32)"
| "single_spaced (c # d # cs) = ((is_space c \<longrightarrow> c = 32 \<and> \<not> is_space d) \<and> single_spaced (d # cs))"

section \<open>Example inputs\<close>

text \<open>No options; an engine that hears silence, and one that hears a repeated word.\<close>

definition no_options :: options where
  "no_options = \<lparr>opt_chunk_length_s = None, opt_stride_length_s = None,
     opt_max_new_tokens = None, opt_return_timestamps = None\<rparr>"

definition blank_engine :: engine where
  "blank_engine chunkOptions samples = Inr (Some (js ''[BLANK_AUDIO]''))"

definition nine_engine :: engine where
  "nine_engine chunkOptions samples = Inr (Some (js ''nine nine nine nine''))"

text \<open>A stereo buffer at 16 kHz whose channels differ.\<close>

definition stereo_buffer :: audio_buffer where
  "stereo_buffer = \<lparr>channels = [ [Val 1], [Val 0] ], sampleRate = 16000\<rparr>"

text \<open>A channel of \<open>n\<close> samples of silence.\<close>

definition silence :: "nat \<Rightarrow> sample list" where
  "silence n = replicate n (Val 0)"

text \<open>A channel of \<open>n\<close> samples in which sample \<open>i\<close> has the value \<open>i\<close>.\<close>

definition ramp :: "nat \<Rightarrow> sample list" where
  "ramp n = map (\<lambda>i. Val (of_nat i)) [0..<n]"

text \<open>
  An engine that returns a text for a window of 20 seconds, 320000 samples, and raises
  on every other window.
\<close>

definition second_window_fails :: engine where
  "second_window_fails chunkOptions samples =
     (if length samples = 320000 then Inr (Some (js ''one'')) else Inl (Error ''failed''))"

text \<open>
  A recording of 30 seconds and 100 samples at 48 kHz, with a transcriber that fails on
  the whole recording and returns a text for each chunk.
\<close>

definition tiny_transcribe :: "request \<Rightarrow> error + jsstring option" where
  "tiny_transcribe r =
     (case r of
        Chunk c \<Rightarrow> if startTime c = 0 then Inr (Some (js ''long'')) else Inr (Some (js ''tiny''))
      | _ \<Rightarrow> Inl (Error ''failed''))"

definition tiny_env :: environment where
  "tiny_env = \<lparr>blob_size = 1000, transcriber_is_function = True, clock_duration = 30,
     decodeAudioData = Inr \<lparr>channels = [silence 1440100], sampleRate = 48000\<rparr>,
     chunk_blob = (\<lambda>c. None), transcribe = tiny_transcribe\<rparr>"

text \<open>
  A recording of ten seconds whose direct transcription fails, while the transcriber
  with options and a temporary pipeline would both return a text.
\<close>

definition failing_transcribe :: "request \<Rightarrow> error + jsstring option" where
  "failing_transcribe r =
     (case r of
        Direct \<Rightarrow> Inl (Error ''failed'')
      | WithOptions opts \<Rightarrow> Inr (Some (js ''hello''))
      | Chunk c \<Rightarrow> Inl (Error ''failed''))"

definition failing_env :: environment where
  "failing_env = \<lparr>blob_size = 1000, transcriber_is_function = True, clock_duration = 10,
     decodeAudioData = Inl (Error ''undecodable''),
     chunk_blob = (\<lambda>c. None), transcribe = failing_transcribe\<rparr>"

definition ready_fallback :: fallback_environment where
  "ready_fallback = \<lparr>arrayBuffer = None, import_transformers = None,
     create_pipeline = (\<lambda>chunk_length. None), tempTranscriber = Inr (Some (js ''temporary''))\<rparr>"

text \<open>
  A recording of a minute and 100 samples at 48 kHz, with a transcriber that returns a
  text for the first and the third chunk and fails on the second.
\<close>

definition three_transcribe :: "request \<Rightarrow> error + jsstring option" where
  "three_transcribe r =
     (case r of
        Chunk c \<Rightarrow>
          if startTime c = 0 then Inr (Some (js ''one''))
          else if startTime c = 1440000 then Inl (Error ''failed'')
          else Inr (Some (js ''three''))
      | _ \<Rightarrow> Inl (Error ''failed''))"

definition three_env :: environment where
  "three_env = \<lparr>blob_size = 1000, transcriber_is_function = True, clock_duration = 61,
     decodeAudioData = Inr \<lparr>channels = [silence 2880100], sampleRate = 48000\<rparr>,
     chunk_blob = (\<lambda>c. None), transcribe = three_transcribe\<rparr>"

section \<open>Evaluation\<close>

text \<open>The definitions a concrete input is evaluated with.\<close>

lemmas js_eval =
  js_def is_space_def is_word_def is_punct_def upper_ascii_def
  match_lit_def match_tag_def match_music_def match_music_lead_def match_music_trail_def
  match_spaces_def match_lone_period_def match_lead_punct_def match_trail_punct_def
  replace_anchored_def trim_def split_ws_def

lemmas stitch_eval =
  assemble_def append_chunk_def set_add_def set_delete_def ends_with_space_def Let_def
  dedup_word.simps

lemmas clean_eval =
  cleanWhisperOutput_def clean_steps_def cleanWhisperOutput_popup_def clean_steps_popup_def
  Let_def

lemma length_silence: "length (silence n) = n"
  by (simp add: silence_def)

lemma length_ramp: "length (ramp n) = n"
  by (simp add: ramp_def)

lemma ramp_nth: "i < n \<Longrightarrow> ramp n ! i = Val (of_nat i)"
  by (simp add: ramp_def)

lemma nth_map_upt0: "i < n \<Longrightarrow> map f [0..<n] ! i = f i"
  by simp

section \<open>The repetition filter and the set of recent words\<close>

text \<open>A set holds a word at most once, so the count of a word in it is 0 or 1.\<close>

lemma count_distinct: "distinct lw \<Longrightarrow> length (filter (\<lambda>w. w = word) lw) \<le> 1"
  by (induction lw) (auto simp: filter_empty_conv)

text \<open>
  On a set the loop body therefore always takes the branch of \<open>repetitionCount < 3\<close>: the
  word is accepted, added if it is new, and the first element leaves when the set has
  grown beyond 20.
\<close>

lemma dedup_word_distinct:
  assumes "distinct lw"
  shows "dedup_word word (u, lw) =
           (u @ [word], if length (set_add word lw) > 20 then tl (set_add word lw) else set_add word lw)"
proof -
  have d: "distinct (set_add word lw)" using assms by (simp add: set_add_def)
  have "set_add word lw \<noteq> []" by (auto simp: set_add_def)
  then obtain x xs where xs: "set_add word lw = x # xs" by (cases "set_add word lw") auto
  with d have "set_delete x (set_add word lw) = xs"
    by (simp add: set_delete_def)
  with xs count_distinct[OF assms, of word] show ?thesis by (simp add: Let_def)
qed

declare dedup_word.simps [simp del]

lemma dedup_word_inv:
  assumes "distinct lw" "length lw \<le> 20"
  shows "distinct (snd (dedup_word word (u, lw)))" "length (snd (dedup_word word (u, lw))) \<le> 20"
  using assms by (auto simp: dedup_word_distinct set_add_def distinct_tl)

lemma fold_dedup_inv:
  assumes "distinct lw" "length lw \<le> 20"
  shows "fst (fold dedup_word ws (u, lw)) = u @ ws
       \<and> distinct (snd (fold dedup_word ws (u, lw)))
       \<and> length (snd (fold dedup_word ws (u, lw))) \<le> 20"
  using assms
proof (induction ws arbitrary: u lw)
  case Nil
  then show ?case by simp
next
  case (Cons w ws)
  let ?lw = "snd (dedup_word w (u, lw))"
  have st: "dedup_word w (u, lw) = (u @ [w], ?lw)"
    using Cons.prems(1) by (simp add: dedup_word_distinct)
  have "distinct ?lw" "length ?lw \<le> 20"
    using dedup_word_inv[OF Cons.prems] by auto
  from Cons.IH[OF this, of "u @ [w]"] st show ?case by simp
qed

lemma stitch_chunk_inv:
  assumes "distinct lw" "length lw \<le> 20"
  shows "distinct (snd (stitch_chunk c (full, lw)))" "length (snd (stitch_chunk c (full, lw))) \<le> 20"
  using fold_dedup_inv[OF assms, of "split_ws c" "[]"] assms by (auto simp: Let_def)

lemma fold_stitch_inv:
  assumes "distinct lw" "length lw \<le> 20"
  shows "distinct (snd (fold stitch_chunk cs (full, lw)))
       \<and> length (snd (fold stitch_chunk cs (full, lw))) \<le> 20"
  using assms
proof (induction cs arbitrary: full lw)
  case Nil
  then show ?case by simp
next
  case (Cons c cs)
  obtain full' lw' where st: "stitch_chunk c (full, lw) = (full', lw')"
    by (cases "stitch_chunk c (full, lw)")
  with stitch_chunk_inv[OF Cons.prems, of c full] have "distinct lw'" "length lw' \<le> 20" by auto
  from Cons.IH[OF this, of full'] st show ?case by simp
qed

text \<open>
  Claim C1. The assembler counts the occurrences of a word in the recent words and
  appends the word when the count is below 3, so that a word is emitted at most 3 times
  within the tracked span. The recent words are a set, in which the count never reaches
  3: on the window texts \<open>forty nine forty nine forty nine\<close> and \<open>forty nine test\<close> the
  assembler emits every word, and \<open>forty\<close> stands four times in the transcript.
\<close>

theorem assemble_emits_fourth_repeat:
  "assemble [js ''forty nine forty nine forty nine'', js ''forty nine test'']
     = js ''forty nine forty nine forty nine forty nine test''
   \<and> length (filter (\<lambda>w. w = js ''forty'')
        (split_ws (assemble [js ''forty nine forty nine forty nine'', js ''forty nine test'']))) = 4"
  by (simp add: js_eval stitch_eval)

text \<open>
  Claim C9. The recent words are bounded. From a set of at most 20 words, processing a
  word leaves at most 20: a word that is present changes nothing, a new word is appended
  at the end, and when that makes 21 the first element, which is the one inserted
  earliest, is the one that leaves. The bound holds after every word of a window and
  after every window.
\<close>

theorem lastWords_bounded:
  assumes "distinct lastWords" and "length lastWords \<le> 20"
  shows "length (snd (dedup_word word (uniqueWords, lastWords))) \<le> 20
       \<and> (word \<in> set lastWords \<longrightarrow> snd (dedup_word word (uniqueWords, lastWords)) = lastWords)
       \<and> (word \<notin> set lastWords \<and> length lastWords < 20 \<longrightarrow>
            snd (dedup_word word (uniqueWords, lastWords)) = lastWords @ [word])
       \<and> (word \<notin> set lastWords \<and> length lastWords = 20 \<longrightarrow>
            snd (dedup_word word (uniqueWords, lastWords)) = tl lastWords @ [word])
       \<and> length (snd (fold dedup_word words (uniqueWords, lastWords))) \<le> 20
       \<and> length (snd (fold stitch_chunk cleanedChunks (fullTranscription, lastWords))) \<le> 20"
proof -
  have step: "snd (dedup_word word (uniqueWords, lastWords)) =
      (if word \<in> set lastWords then lastWords
       else if length lastWords < 20 then lastWords @ [word]
       else tl lastWords @ [word])"
    using assms by (cases lastWords) (auto simp: dedup_word_distinct set_add_def)
  have "length (snd (dedup_word word (uniqueWords, lastWords))) \<le> 20"
    using dedup_word_inv[OF assms] by simp
  moreover have "length (snd (fold dedup_word words (uniqueWords, lastWords))) \<le> 20"
    using fold_dedup_inv[OF assms] by simp
  moreover have "length (snd (fold stitch_chunk cleanedChunks (fullTranscription, lastWords))) \<le> 20"
    using fold_stitch_inv[OF assms] by simp
  ultimately show ?thesis
    using step by simp
qed

theorem lastWords_bounded_witness:
  "distinct (map (\<lambda>i. [i]) [0..<20]) \<and> length (map (\<lambda>i. [i]) [0..<20] :: jsstring list) \<le> 20
   \<and> snd (dedup_word [20] ([], map (\<lambda>i. [i]) [0..<20])) = map (\<lambda>i. [i]) [1..<21]"
proof -
  have d: "distinct (map (\<lambda>i. [i]) [0..<20] :: jsstring list)"
    by (simp add: distinct_map inj_on_def)
  have l: "length (map (\<lambda>i. [i]) [0..<20] :: jsstring list) \<le> 20" by simp
  have n: "[20] \<notin> set (map (\<lambda>i. [i]) [0..<20] :: jsstring list)" by auto
  have t: "tl (map (\<lambda>i. [i]) [0..<20] :: jsstring list) @ [ [20] ] = map (\<lambda>i. [i]) [1..<21]"
    by (simp add: upt_conv_Cons)
  from lastWords_bounded[OF d l, of "[20]" "[]"] n t d l show ?thesis by simp
qed

lemma chunk_loop_fold:
  assumes "\<forall>w\<in>set ws. \<exists>t. eng chunkOptions (js_slice (fst w) (snd w) audioData) = Inr t"
  shows "chunk_loop eng chunkOptions audioData ws st =
           Inr (fold stitch_chunk
                  (map (\<lambda>w. case eng chunkOptions (js_slice (fst w) (snd w) audioData) of
                               Inl e \<Rightarrow> [] | Inr t \<Rightarrow> cleanWhisperOutput_popup t) ws) st)"
  using assms
proof (induction ws arbitrary: st)
  case Nil
  then show ?case by simp
next
  case (Cons w ws)
  obtain b e where w: "w = (b, e)" by (cases w)
  obtain t where t: "eng chunkOptions (js_slice b e audioData) = Inr t"
    using Cons.prems w by auto
  show ?case using Cons w t by simp
qed

lemma chunk_loop_propagates:
  assumes "\<forall>w\<in>set ws1. \<exists>t. eng chunkOptions (js_slice (fst w) (snd w) audioData) = Inr t"
    and "eng chunkOptions (js_slice b e audioData) = Inl err"
  shows "chunk_loop eng chunkOptions audioData (ws1 @ (b, e) # ws2) st = Inl err"
  using assms
proof (induction ws1 arbitrary: st)
  case Nil
  then show ?case by simp
next
  case (Cons w ws)
  obtain b' e' where w: "w = (b', e')" by (cases w)
  obtain t where t: "eng chunkOptions (js_slice b' e' audioData) = Inr t"
    using Cons.prems w by auto
  show ?case using Cons w t by simp
qed

section \<open>Segmenter\<close>

lemma long_len: "estimatedDuration len > 120 \<longleftrightarrow> len > 1920000"
  by (simp add: estimatedDuration_def field_simps)

lemma adjusted_sizes_long:
  "estimatedDuration len > 120 \<Longrightarrow> adjusted_sizes chunkOptions len = (400000, 48000)"
  by (simp add: adjusted_sizes_def Let_def)

lemma numChunks_long:
  "numChunks (400000, 48000) len = Finite (\<lceil>(of_nat len - 400000) / 352000 :: rat\<rceil> + 1)"
  by (simp add: numChunks_def js_div_def js_ceil_def js_succ_def)

lemma ceiling_long_pos:
  assumes "len > 1920000"
  shows "0 < \<lceil>(of_nat len - 400000) / 352000 :: rat\<rceil>"
proof -
  have "(0::rat) < (of_nat len - 400000) / 352000" using assms by simp
  then show ?thesis by simp
qed

lemma chunk_bounds_long:
  "chunk_bounds (400000, 48000) len i = (int i * 352000, min (int i * 352000 + 400000) (int len))"
  by (simp add: chunk_bounds_def Let_def)

lemma window_inside:
  assumes "int i < \<lceil>(of_nat len - 400000) / 352000 :: rat\<rceil>"
  shows "int i * 352000 + 400000 < int len"
proof -
  have "of_int (int i) < ((of_nat len - 400000) / 352000 :: rat)"
    using assms by (simp only: less_ceiling_iff)
  then have "(of_int (int i) * 352000 + 400000 :: rat) < of_nat len"
    by (simp add: field_simps)
  then have "(of_int (int i * 352000 + 400000) :: rat) < of_int (int len)" by simp
  then show ?thesis by (simp only: of_int_less_iff)
qed

lemma window_last:
  assumes "int i = \<lceil>(of_nat len - 400000) / 352000 :: rat\<rceil>"
  shows "int len \<le> int i * 352000 + 400000" and "int i * 352000 + 48000 < int len"
proof -
  let ?x = "(of_nat len - 400000) / 352000 :: rat"
  have "?x \<le> of_int (int i)" using assms by (simp add: le_of_int_ceiling)
  then have "(of_nat len :: rat) \<le> of_int (int i) * 352000 + 400000"
    by (simp add: field_simps)
  then have "(of_int (int len) :: rat) \<le> of_int (int i * 352000 + 400000)" by simp
  then show "int len \<le> int i * 352000 + 400000" by (simp only: of_int_le_iff)
  have "of_int \<lceil>?x\<rceil> - 1 < ?x" by (rule ceiling_correct[THEN conjunct1])
  then have "of_int (int i) - 1 < ?x" by (simp only: assms[symmetric])
  then have "(of_int (int i) * 352000 + 48000 :: rat) < of_nat len"
    by (simp add: field_simps)
  then have "(of_int (int i * 352000 + 48000) :: rat) < of_int (int len)" by simp
  then show "int i * 352000 + 48000 < int len" by (simp only: of_int_less_iff)
qed

lemma js_slice_inside:
  assumes "0 \<le> b" and "b \<le> e" and "e \<le> int (length xs)"
  shows "js_slice b e xs = take (nat (e - b)) (drop (nat b) xs)"
  using assms by (simp add: js_slice_def Let_def min_def)

text \<open>
  Claim C4. For more than 120 seconds of audio the segmenter takes windows of 25 s with
  an overlap of 3 s, whatever the options. It makes
  \<open>ceil((len - window) / (window - stride)) + 1\<close> windows. Window \<open>i\<close> starts at sample
  \<open>i * (window - stride)\<close>, so that the starts increase strictly, and ends 25 s later or
  at the end of the data, whichever comes first. Every window but the last has the full
  25 s and shares its last 3 s with the next one; the last window ends with the data and
  is longer than 3 s. Each window is the samples of the data between its bounds, and the
  transcriber runs the engine on these windows, in this order.
\<close>

theorem segment_long_audio:
  assumes "estimatedDuration (length audioData) > 120"
  shows "adjusted_sizes chunkOptions (length audioData) = (25 * 16000, 3 * 16000)
       \<and> (\<exists>ws. segment chunkOptions (length audioData) = Some ws
            \<and> int (length ws) =
                \<lceil>(of_nat (length audioData) - 25 * 16000) / (25 * 16000 - 3 * 16000) :: rat\<rceil> + 1
            \<and> (\<forall>i<length ws.
                   fst (ws ! i) = int i * (25 * 16000 - 3 * 16000)
                 \<and> snd (ws ! i) = min (fst (ws ! i) + 25 * 16000) (int (length audioData))
                 \<and> 3 * 16000 < snd (ws ! i) - fst (ws ! i)
                 \<and> js_slice (fst (ws ! i)) (snd (ws ! i)) audioData
                     = take (nat (snd (ws ! i) - fst (ws ! i))) (drop (nat (fst (ws ! i))) audioData))
            \<and> (\<forall>i. Suc i < length ws \<longrightarrow>
                   snd (ws ! i) - fst (ws ! i) = 25 * 16000
                 \<and> snd (ws ! i) - fst (ws ! Suc i) = 3 * 16000)
            \<and> snd (last ws) = int (length audioData)
            \<and> (\<forall>i j. i < j \<and> j < length ws \<longrightarrow> fst (ws ! i) < fst (ws ! j))
            \<and> transcribe_samples eng opts audioData =
                (case chunk_loop eng (merge_options opts) audioData ws ([], []) of
                   Inl e \<Rightarrow> Some (Inl e)
                 | Inr st \<Rightarrow> Some (Inr (text_or (fst st) (js ''[Empty transcription]'')))))"
proof -
  let ?len = "length audioData"
  let ?c = "\<lceil>(of_nat ?len - 400000) / 352000 :: rat\<rceil>"
  let ?ws = "map (chunk_bounds (400000, 48000) ?len) [0..<nat (?c + 1)]"
  have len: "?len > 1920000" using assms by (simp add: long_len)
  have pos: "0 < ?c" using ceiling_long_pos[OF len] .
  have sz: "adjusted_sizes co ?len = (400000, 48000)" for co
    using assms by (rule adjusted_sizes_long)
  have seg: "segment co ?len = Some ?ws" for co
    by (simp add: segment_def sz numChunks_long iterations_def)
  have n: "int (length ?ws) = ?c + 1" using pos by simp
  have nth: "?ws ! i = (int i * 352000, min (int i * 352000 + 400000) (int ?len))"
    if "i < length ?ws" for i
    using that by (simp add: chunk_bounds_long)
  have inner: "snd (?ws ! i) = int i * 352000 + 400000" if "Suc i < length ?ws" for i
  proof -
    have "int i < ?c" using that pos by simp
    moreover have "i < length ?ws" using that by simp
    ultimately show ?thesis using window_inside[of i ?len] by (simp only: nth) simp
  qed
  have wide: "3 * 16000 < snd (?ws ! i) - fst (?ws ! i)" if "i < length ?ws" for i
  proof (cases "Suc i < length ?ws")
    case True
    show ?thesis using inner[OF True] by (simp only: nth[OF that]) simp
  next
    case False
    then have "int i = ?c" using that n by simp
    from window_last[OF this] show ?thesis by (simp only: nth[OF that]) simp
  qed
  have slice: "js_slice (fst (?ws ! i)) (snd (?ws ! i)) audioData
                 = take (nat (snd (?ws ! i) - fst (?ws ! i))) (drop (nat (fst (?ws ! i))) audioData)"
    if "i < length ?ws" for i
  proof (rule js_slice_inside)
    show "0 \<le> fst (?ws ! i)" by (simp only: nth[OF that]) simp
    show "fst (?ws ! i) \<le> snd (?ws ! i)" using wide[OF that] by simp
    show "snd (?ws ! i) \<le> int ?len" by (simp only: nth[OF that]) simp
  qed
  have lst: "snd (last ?ws) = int ?len"
  proof -
    have "0 < nat (?c + 1)" using pos by linarith
    then have "length ?ws \<noteq> 0" by (simp only: length_map length_upt)
    then have ne: "?ws \<noteq> []" by (simp only: length_0_conv not_False_eq_True)
    have l: "last ?ws = ?ws ! (length ?ws - 1)" using ne by (rule last_conv_nth)
    have i: "length ?ws - 1 < length ?ws" using ne by simp
    have "int (length ?ws - 1) = ?c" using n i by linarith
    from window_last(1)[OF this] show ?thesis by (simp only: l nth[OF i]) simp
  qed
  have over: "snd (?ws ! i) - fst (?ws ! i) = 25 * 16000
       \<and> snd (?ws ! i) - fst (?ws ! Suc i) = 3 * 16000" if "Suc i < length ?ws" for i
  proof -
    have i: "i < length ?ws" and j: "Suc i < length ?ws" using that by simp_all
    have "fst (?ws ! i) = int i * 352000" by (simp only: nth[OF i]) simp
    moreover have "fst (?ws ! Suc i) = int (Suc i) * 352000" by (simp only: nth[OF j]) simp
    ultimately show ?thesis using inner[OF that] by simp
  qed
  have run: "transcribe_samples eng opts audioData =
                (case chunk_loop eng (merge_options opts) audioData ?ws ([], []) of
                   Inl e \<Rightarrow> Some (Inl e)
                 | Inr st \<Rightarrow> Some (Inr (text_or (fst st) (js ''[Empty transcription]''))))"
  proof -
    have "estimatedDuration ?len > 25" using assms by simp
    moreover have "\<not> ?c + 1 \<le> 0" using pos by linarith
    ultimately show ?thesis
      by (simp add: transcribe_samples_def seg Let_def split: sum.splits prod.splits)
  qed
  have starts: "fst (?ws ! i) < fst (?ws ! j)" if "i < j" "j < length ?ws" for i j
  proof -
    have i: "i < length ?ws" using that by simp
    show ?thesis using that(1) by (simp only: nth[OF i] nth[OF that(2)]) simp
  qed
  have fsts: "fst (?ws ! i) = int i * 352000" if "i < length ?ws" for i
    by (simp only: nth[OF that]) simp
  have snds: "snd (?ws ! i) = min (fst (?ws ! i) + 400000) (int ?len)" if "i < length ?ws" for i
    by (simp only: nth[OF that]) simp
  have each: "\<forall>i<length ?ws.
                   fst (?ws ! i) = int i * (25 * 16000 - 3 * 16000)
                 \<and> snd (?ws ! i) = min (fst (?ws ! i) + 25 * 16000) (int ?len)
                 \<and> 3 * 16000 < snd (?ws ! i) - fst (?ws ! i)
                 \<and> js_slice (fst (?ws ! i)) (snd (?ws ! i)) audioData
                     = take (nat (snd (?ws ! i) - fst (?ws ! i))) (drop (nat (fst (?ws ! i))) audioData)"
    using wide slice fsts snds by simp
  have "segment chunkOptions ?len = Some ?ws
       \<and> int (length ?ws) = \<lceil>(of_nat ?len - 25 * 16000) / (25 * 16000 - 3 * 16000) :: rat\<rceil> + 1"
    using seg n by simp
  with each over lst starts run sz[of chunkOptions] show ?thesis
    by (intro conjI exI[of _ ?ws]) (simp_all only: simp_thms, simp_all)
qed

text \<open>
  Claim C4, at 150 seconds of audio: seven windows, which start 352000 samples apart;
  the first six have 400000 samples and the seventh ends with the data.
\<close>

theorem segment_long_audio_witness:
  "estimatedDuration (length (silence 2400000)) > 120
   \<and> (\<exists>ws. segment \<lparr>chunk_length_s = 20, stride_length_s = 5, max_new_tokens = 448,
                        return_timestamps = True\<rparr> (length (silence 2400000)) = Some ws
          \<and> length ws = 7
          \<and> ws ! 0 = (0, 400000)
          \<and> ws ! 1 = (352000, 752000)
          \<and> ws ! 6 = (2112000, 2400000))"
proof -
  let ?co = "\<lparr>chunk_length_s = 20, stride_length_s = 5, max_new_tokens = 448,
               return_timestamps = True\<rparr>"
  have h: "estimatedDuration (length (silence 2400000)) > 120"
    by (simp add: estimatedDuration_def length_silence)
  have c: "\<lceil>(2000000::rat) / 352000\<rceil> = 6" by (simp add: ceiling_eq_iff)
  obtain ws where seg: "segment ?co (length (silence 2400000)) = Some ws"
    and n: "int (length ws) =
        \<lceil>(of_nat (length (silence 2400000)) - 25 * 16000) / (25 * 16000 - 3 * 16000) :: rat\<rceil> + 1"
    and each: "\<forall>i<length ws.
                   fst (ws ! i) = int i * (25 * 16000 - 3 * 16000)
                 \<and> snd (ws ! i) = min (fst (ws ! i) + 25 * 16000) (int (length (silence 2400000)))
                 \<and> 3 * 16000 < snd (ws ! i) - fst (ws ! i)
                 \<and> js_slice (fst (ws ! i)) (snd (ws ! i)) (silence 2400000)
                     = take (nat (snd (ws ! i) - fst (ws ! i))) (drop (nat (fst (ws ! i))) (silence 2400000))"
    using segment_long_audio[OF h, of ?co] by blast
  have l: "length ws = 7" using n c by (simp add: length_silence)
  have w: "ws ! i = (int i * 352000, min (int i * 352000 + 400000) 2400000)" if "i < 7" for i
    using each l that by (intro prod_eqI) (simp_all add: length_silence)
  have "ws ! 0 = (0, 400000)" "ws ! 1 = (352000, 752000)" "ws ! 6 = (2112000, 2400000)"
    using w[of 0] w[of 1] w[of 6] by simp_all
  with h seg l show ?thesis by blast
qed

section \<open>Rounding to double precision\<close>

text \<open>
  \<open>round_even\<close> is within one half of its argument and leaves an integer as it is;
  \<open>exponent x\<close> is the \<open>e\<close> with \<open>2^e \<le> x < 2^(e+1)\<close>; \<open>to_double x\<close> is within half a unit
  in the last place of \<open>x\<close> and leaves an integer below \<open>2^53\<close> as it is.
\<close>

lemma round_even_floor: "\<lfloor>q\<rfloor> \<le> round_even q" and round_even_floor1: "round_even q \<le> \<lfloor>q\<rfloor> + 1"
  by (simp_all add: round_even_def Let_def)

lemma round_even_error: "\<bar>of_int (round_even q) - q\<bar> \<le> 1 / 2"
proof -
  have b: "of_int \<lfloor>q\<rfloor> \<le> q" "q < of_int \<lfloor>q\<rfloor> + 1" by linarith+
  consider "q - of_int \<lfloor>q\<rfloor> < 1 / 2" | "1 / 2 < q - of_int \<lfloor>q\<rfloor>"
    | "q - of_int \<lfloor>q\<rfloor> = 1 / 2" by linarith
  then show ?thesis
  proof cases
    case 1
    then have "round_even q = \<lfloor>q\<rfloor>" by (simp add: round_even_def Let_def)
    then show ?thesis using 1 b by simp
  next
    case 2
    then have "round_even q = \<lfloor>q\<rfloor> + 1" by (simp add: round_even_def Let_def)
    then show ?thesis using 2 b by simp
  next
    case 3
    then have "round_even q = \<lfloor>q\<rfloor> \<or> round_even q = \<lfloor>q\<rfloor> + 1"
      by (simp add: round_even_def Let_def)
    then show ?thesis using 3 b by auto
  qed
qed

lemma round_even_eqI:
  assumes "\<bar>q - of_int n\<bar> < 1 / 2"
  shows "round_even q = n"
proof -
  have "\<bar>of_int (round_even q) - q\<bar> \<le> 1 / 2" by (rule round_even_error)
  with assms have "\<bar>(of_int (round_even q) :: rat) - of_int n\<bar> < 1" by linarith
  then have "\<bar>(of_int (round_even q - n) :: rat)\<bar> < 1" by simp
  then have "\<bar>round_even q - n\<bar> < 1" by (metis of_int_abs of_int_less_1_iff)
  then show ?thesis by linarith
qed

lemma round_even_int: "round_even (of_int n) = n"
  by (rule round_even_eqI) simp

lemma exponent_lower:
  assumes "0 < x"
  shows "2 powi exponent x \<le> x"
proof (cases "1 \<le> x")
  case True
  let ?m = "nat \<lfloor>x\<rfloor>"
  have m: "0 < ?m" using True by simp
  then have "floorlog 2 ?m \<noteq> 0" by (simp only: floorlog_eq_zero_iff) simp
  then have fl: "1 \<le> floorlog 2 ?m" by simp
  have "2 ^ (floorlog 2 ?m - 1) \<le> ?m" using floorlog_bounds[OF m, of 2] by simp
  then have "(2::rat) ^ (floorlog 2 ?m - 1) \<le> of_nat ?m"
    by (metis of_nat_le_iff of_nat_numeral of_nat_power)
  also have "(of_nat ?m :: rat) = of_int \<lfloor>x\<rfloor>" using True by simp
  also have "\<dots> \<le> x" by simp
  finally have "(2::rat) ^ (floorlog 2 ?m - 1) \<le> x" .
  moreover have "exponent x = int (floorlog 2 ?m - 1)" using True fl by (simp add: exponent_def)
  ultimately show ?thesis by simp
next
  case False
  let ?m = "nat (\<lceil>1 / x\<rceil> - 1)"
  let ?k = "floorlog 2 ?m"
  have "1 < 1 / x" using False assms by simp
  then have c: "2 \<le> \<lceil>1 / x\<rceil>" by linarith
  then have m: "0 < ?m" by simp
  have "?m < 2 ^ ?k" using floorlog_bounds[OF m, of 2] by simp
  then have "int ?m < 2 ^ ?k" by (metis of_nat_less_iff of_nat_numeral of_nat_power)
  moreover have "0 \<le> \<lceil>1 / x\<rceil> - 1" using c by linarith
  then have "int ?m = \<lceil>1 / x\<rceil> - 1" by (rule nat_0_le)
  ultimately have "\<lceil>1 / x\<rceil> \<le> 2 ^ ?k" by linarith
  then have "1 / x \<le> 2 ^ ?k" by (metis ceiling_le_iff of_int_numeral of_int_power)
  then have "1 \<le> 2 ^ ?k * x" using assms by (simp add: field_simps)
  then have "inverse (2 ^ ?k) \<le> x" by (simp add: field_simps)
  moreover have "exponent x = - int ?k" using False by (simp add: exponent_def)
  ultimately show ?thesis by (simp add: power_int_minus)
qed

lemma exponent_upper:
  assumes "0 < x"
  shows "x < 2 powi (exponent x + 1)"
proof (cases "1 \<le> x")
  case True
  let ?m = "nat \<lfloor>x\<rfloor>"
  have m: "0 < ?m" using True by simp
  have "?m < 2 ^ floorlog 2 ?m" using floorlog_bounds[OF m, of 2] by simp
  then have "int ?m < 2 ^ floorlog 2 ?m" by (metis of_nat_less_iff of_nat_numeral of_nat_power)
  then have "\<lfloor>x\<rfloor> + 1 \<le> 2 ^ floorlog 2 ?m" using True by simp
  then have "of_int (\<lfloor>x\<rfloor> + 1) \<le> (2::rat) ^ floorlog 2 ?m"
    by (metis of_int_le_iff of_int_numeral of_int_power)
  moreover have "x < of_int (\<lfloor>x\<rfloor> + 1)" by linarith
  ultimately have "x < 2 ^ floorlog 2 ?m" by linarith
  moreover have "exponent x + 1 = int (floorlog 2 ?m)" using True by (simp add: exponent_def)
  ultimately show ?thesis by simp
next
  case False
  let ?m = "nat (\<lceil>1 / x\<rceil> - 1)"
  let ?k = "floorlog 2 ?m"
  have "1 < 1 / x" using False assms by simp
  then have c: "2 \<le> \<lceil>1 / x\<rceil>" by linarith
  then have m: "0 < ?m" by simp
  then have "?k \<noteq> 0" by (simp only: floorlog_eq_zero_iff) simp
  then have k: "1 \<le> ?k" by simp
  have "2 ^ (?k - 1) \<le> ?m" using floorlog_bounds[OF m, of 2] by simp
  then have "(2::int) ^ (?k - 1) \<le> int ?m" by (metis of_nat_le_iff of_nat_numeral of_nat_power)
  moreover have "0 \<le> \<lceil>1 / x\<rceil> - 1" using c by linarith
  then have "int ?m = \<lceil>1 / x\<rceil> - 1" by (rule nat_0_le)
  ultimately have "(2::int) ^ (?k - 1) \<le> \<lceil>1 / x\<rceil> - 1" by linarith
  then have "of_int ((2::int) ^ (?k - 1)) \<le> (of_int (\<lceil>1 / x\<rceil> - 1) :: rat)"
    by (simp only: of_int_le_iff)
  moreover have "(of_int (\<lceil>1 / x\<rceil> - 1) :: rat) < 1 / x" by linarith
  ultimately have "(2::rat) ^ (?k - 1) < 1 / x" by simp
  then have "x * 2 ^ (?k - 1) < 1" using assms by (simp add: field_simps)
  then have "x < inverse (2 ^ (?k - 1))" by (simp add: field_simps)
  moreover have "exponent x + 1 = - int (?k - 1)" using False k by (simp add: exponent_def)
  ultimately show ?thesis by (simp add: power_int_minus)
qed

lemma exponent_eqI:
  assumes "2 powi e \<le> x" and "x < 2 powi (e + 1)"
  shows "exponent x = e"
proof -
  have x: "0 < x" using assms(1) zero_less_power_int[of "2::rat" e] by linarith
  have "(2::rat) powi e < 2 powi (exponent x + 1)"
    using assms(1) exponent_upper[OF x] by linarith
  then have "e < exponent x + 1"
    by (metis linorder_not_less power_int_increasing one_le_numeral)
  moreover have "(2::rat) powi exponent x < 2 powi (e + 1)"
    using assms(2) exponent_lower[OF x] by linarith
  then have "exponent x < e + 1"
    by (metis linorder_not_less power_int_increasing one_le_numeral)
  ultimately show ?thesis by linarith
qed

lemma exponent_less:
  assumes "0 < x" and "x < 2 ^ n"
  shows "exponent x < int n"
proof -
  have "(2::rat) powi exponent x < 2 powi (int n)"
    using exponent_lower[OF assms(1)] assms(2) by simp
  then show ?thesis by (metis linorder_not_less power_int_increasing one_le_numeral)
qed

lemma to_double_positive:
  assumes "0 < x"
  shows "to_double x = of_int (round_even (x / 2 powi (exponent x - 52))) * 2 powi (exponent x - 52)"
  using assms by (simp add: to_double_def Let_def)

lemma to_double_error:
  assumes "0 < x"
  shows "\<bar>to_double x - x\<bar> \<le> 2 powi (exponent x - 53)"
proof -
  let ?ulp = "(2::rat) powi (exponent x - 52)"
  have u: "0 < ?ulp" by simp
  have "\<bar>of_int (round_even (x / ?ulp)) - x / ?ulp\<bar> \<le> 1 / 2" by (rule round_even_error)
  then have "\<bar>of_int (round_even (x / ?ulp)) - x / ?ulp\<bar> * ?ulp \<le> 1 / 2 * ?ulp"
    using u by (intro mult_right_mono) simp_all
  moreover have "\<bar>of_int (round_even (x / ?ulp)) - x / ?ulp\<bar> * ?ulp
        = \<bar>of_int (round_even (x / ?ulp)) * ?ulp - x\<bar>"
  proof -
    have "\<bar>of_int (round_even (x / ?ulp)) - x / ?ulp\<bar> * ?ulp
        = \<bar>(of_int (round_even (x / ?ulp)) - x / ?ulp) * ?ulp\<bar>"
      using u by (simp only: abs_mult abs_of_pos)
    also have "(of_int (round_even (x / ?ulp)) - x / ?ulp) * ?ulp
        = of_int (round_even (x / ?ulp)) * ?ulp - x"
      using u by (simp add: left_diff_distrib del: zero_less_power_int)
    finally show ?thesis .
  qed
  moreover have "1 / 2 * ?ulp = 2 powi (exponent x - 53)"
    using power_int_add[of "2::rat" "exponent x - 53" 1] by simp
  ultimately show ?thesis using assms by (simp add: to_double_positive)
qed

lemma to_double_pos:
  assumes "0 < x"
  shows "0 < to_double x"
proof -
  let ?ulp = "(2::rat) powi (exponent x - 52)"
  have u: "0 < ?ulp" by simp
  have "2 powi (exponent x - 52) * 2 powi 52 = (2::rat) powi exponent x"
    using power_int_add[of "2::rat" "exponent x - 52" 52] by simp
  then have "?ulp * 2 ^ 52 \<le> x" using exponent_lower[OF assms] by simp
  then have "2 ^ 52 \<le> x / ?ulp" using u by (simp add: field_simps del: zero_less_power_int)
  moreover have "(1::rat) \<le> 2 ^ 52" by simp
  ultimately have "1 \<le> x / ?ulp" by linarith
  then have "1 \<le> \<lfloor>x / ?ulp\<rfloor>" by simp
  then have "0 < round_even (x / ?ulp)" using round_even_floor[of "x / ?ulp"] by linarith
  then show ?thesis using assms u by (simp add: to_double_positive del: zero_less_power_int)
qed

lemma to_double_int:
  assumes "0 < n" and "n < 2 ^ 53"
  shows "to_double (of_int n) = of_int n"
proof -
  let ?x = "of_int n :: rat"
  have x: "0 < ?x" using assms by simp
  have "?x < 2 ^ 53" using assms(2) by (metis of_int_less_iff of_int_numeral of_int_power)
  then have e: "exponent ?x < 53" using exponent_less[OF x, of 53] by simp
  define j where "j = nat (52 - exponent ?x)"
  have ulp: "(2::rat) powi (exponent ?x - 52) = 1 / 2 ^ j"
    using e by (simp add: j_def power_int_def power_one_over)
  have "?x / (1 / 2 ^ j) = of_int (n * 2 ^ j)" by simp
  then have "round_even (?x / (1 / 2 ^ j)) = n * 2 ^ j" by (simp only: round_even_int)
  then show ?thesis using x by (simp add: to_double_positive ulp)
qed

lemma to_double_eqI:
  assumes "2 powi e \<le> x" and "x < 2 powi (e + 1)"
    and "\<bar>x / 2 powi (e - 52) - of_int n\<bar> < 1 / 2"
  shows "to_double x = of_int n * 2 powi (e - 52)"
proof -
  have x: "0 < x" using assms(1) zero_less_power_int[of "2::rat" e] by linarith
  have e: "exponent x = e" using assms(1,2) by (rule exponent_eqI)
  show ?thesis using assms(3) by (simp add: to_double_positive[OF x] e round_even_eqI)
qed

section \<open>Resampling\<close>

text \<open>
  The loop fills the output from index 0 to the end, so that the resampled data are the
  list of the samples read; for a length below \<open>2^32\<close> no read is out of range.
\<close>

declare resample_loop.simps [simp del]

lemma resample_loop_eq:
  "length out = n \<Longrightarrow> i \<le> n \<Longrightarrow>
     resample_loop ratio xs n i out =
       take i out @ map (\<lambda>j. read_sample xs \<lfloor>to_double (of_nat j * ratio)\<rfloor>) [i..<n]"
proof (induction ratio xs n i out rule: resample_loop.induct)
  case (1 ratio xs n i out)
  show ?case
  proof (cases "i < n")
    case True
    let ?out = "out[i := read_sample xs \<lfloor>to_double (of_nat i * ratio)\<rfloor>]"
    have "resample_loop ratio xs n i out = resample_loop ratio xs n (i + 1) ?out"
      using True by (subst resample_loop.simps) simp
    also have "\<dots> = take (i + 1) ?out
        @ map (\<lambda>j. read_sample xs \<lfloor>to_double (of_nat j * ratio)\<rfloor>) [i + 1..<n]"
      using "1.IH"[OF True] True "1.prems" by simp
    also have "take (i + 1) ?out = take i out @ [read_sample xs \<lfloor>to_double (of_nat i * ratio)\<rfloor>]"
      using True "1.prems" by (simp add: take_Suc_conv_app_nth)
    finally show ?thesis using True by (simp add: upt_conv_Cons)
  next
    case False
    with "1.prems" have "i = n" by simp
    then show ?thesis using "1.prems" by (subst resample_loop.simps) simp
  qed
qed

lemma resample_eq:
  assumes "0 < rate"
  shows "resample rate xs =
     Inr (map (\<lambda>j. read_sample xs \<lfloor>to_double (of_nat j * to_double (of_nat rate / 16000))\<rfloor>)
            [0..<nat \<lfloor>to_double (of_nat (length xs) / to_double (of_nat rate / 16000))\<rfloor>])"
proof -
  have "0 < to_double (of_nat rate / 16000)" using assms by (intro to_double_pos) simp
  then show ?thesis by (simp add: resample_def Let_def resample_loop_eq)
qed

lemma to_double_nat:
  assumes "n < 2 ^ 53"
  shows "to_double (of_nat n) = of_nat n"
proof (cases "n = 0")
  case True
  then show ?thesis by (simp add: to_double_def)
next
  case False
  have "int n < 2 ^ 53" using assms by (metis of_nat_less_iff of_nat_numeral of_nat_power)
  then show ?thesis using False to_double_int[of "int n"] by simp
qed

lemma to_double_close:
  assumes "0 < x"
  shows "\<bar>to_double x - x\<bar> \<le> x / 2 ^ 53"
proof -
  have "(2::rat) powi (exponent x - 53) = 2 powi exponent x / 2 ^ 53"
    using power_int_diff[of "2::rat" "exponent x" 53] by simp
  also have "\<dots> \<le> x / 2 ^ 53" using exponent_lower[OF assms] by (simp add: divide_right_mono)
  finally show ?thesis using to_double_error[OF assms] by linarith
qed

lemma floor_to_double_div:
  assumes "0 < k" and "N < 2 ^ 53"
  shows "\<lfloor>to_double (of_nat N / of_nat k)\<rfloor> = int (N div k)"
proof -
  let ?x = "of_nat N / of_nat k :: rat"
  let ?q = "N div k" and ?r = "N mod k"
  have k: "(0::rat) < of_nat k" using assms(1) by simp
  have "N = ?q * k + ?r" by simp
  then have "(of_nat N :: rat) = of_nat ?q * of_nat k + of_nat ?r"
    by (metis of_nat_add of_nat_mult)
  then have x: "?x = of_nat ?q + of_nat ?r / of_nat k" using k by (simp add: field_simps)
  show ?thesis
  proof (cases "?r = 0")
    case True
    have "?q < 2 ^ 53" using assms(2) div_le_dividend[of N k] by linarith
    then have "to_double (of_nat ?q) = of_nat ?q" by (rule to_double_nat)
    then show ?thesis using x True by simp
  next
    case False
    then have r1: "(1::rat) \<le> of_nat ?r" by simp
    have "?r < k" using assms(1) by simp
    then have "?r + 1 \<le> k" by simp
    then have r2: "(of_nat ?r :: rat) + 1 \<le> of_nat k" by (metis of_nat_1 of_nat_add of_nat_le_iff)
    have lo: "of_nat ?q + 1 / of_nat k \<le> ?x"
      using r1 k by (simp add: x divide_right_mono)
    have "of_nat ?r / (of_nat k :: rat) + 1 / of_nat k \<le> 1"
      using r2 k by (simp add: add_divide_distrib[symmetric])
    then have hi: "?x \<le> of_nat ?q + 1 - 1 / of_nat k" by (simp add: x)
    have "(0::rat) < 1 / of_nat k" using k by simp
    moreover have "(0::rat) \<le> of_nat ?q" by simp
    ultimately have pos: "0 < ?x" using lo by linarith
    have "(of_nat N :: rat) < 2 ^ 53" using assms(2) by (metis of_nat_less_iff of_nat_numeral of_nat_power)
    then have "?x / 2 ^ 53 < 1 / of_nat k" using k by (simp add: field_simps)
    then have err: "\<bar>to_double ?x - ?x\<bar> < 1 / of_nat k" using to_double_close[OF pos] by linarith
    have "of_nat ?q < to_double ?x" using lo err by linarith
    moreover have "to_double ?x < of_nat ?q + 1" using hi err by linarith
    ultimately show ?thesis by (simp add: floor_eq_iff)
  qed
qed

lemma floor_to_double_mult:
  assumes "i * k < 2 ^ 53"
  shows "\<lfloor>to_double (of_nat i * of_nat k)\<rfloor> = int (i * k)"
proof -
  have a: "(of_nat i * of_nat k :: rat) = of_nat (i * k)" by simp
  have "\<lfloor>to_double (of_nat (i * k))\<rfloor> = \<lfloor>(of_nat (i * k) :: rat)\<rfloor>"
    using to_double_nat[OF assms] by (simp only:)
  also have "\<dots> = int (i * k)" by (rule floor_of_nat)
  finally show ?thesis by (simp only: a)
qed

lemma resample_index_in_range:
  fixes R :: rat
  assumes R: "1 / 2 ^ 14 < R" and N: "N < 2 ^ 32"
    and i: "i < nat \<lfloor>to_double (of_nat N / R)\<rfloor>"
  shows "0 \<le> \<lfloor>to_double (of_nat i * R)\<rfloor>" and "\<lfloor>to_double (of_nat i * R)\<rfloor> < int N"
proof -
  let ?n = "of_nat N :: rat"
  let ?x = "?n / R"
  let ?y = "of_nat i * R"
  have R0: "0 < R" using R by (simp add: order.strict_trans[rotated])
  have N0: "0 < N"
  proof (rule ccontr)
    assume "\<not> 0 < N"
    then have "to_double (of_nat N / R) = 0" by (simp add: to_double_def)
    then show False using i by simp
  qed
  have x0: "0 < ?x" using N0 R0 by simp
  have a: "to_double ?x \<le> ?x + ?x / 2 ^ 53" using to_double_close[OF x0] by linarith
  have "int i + 1 \<le> \<lfloor>to_double ?x\<rfloor>" using i by linarith
  then have "of_int (int i + 1) \<le> to_double ?x" by (simp only: le_floor_iff)
  then have "of_nat i + 1 \<le> ?x + ?x / 2 ^ 53" using a by simp
  then have "(of_nat i + 1) * R \<le> (?x + ?x / 2 ^ 53) * R" using R0 by (simp only: mult_right_mono less_imp_le)
  also have "(?x + ?x / 2 ^ 53) * R = ?n + ?n / 2 ^ 53" using R0 by (simp add: field_simps)
  finally have c: "?y + R \<le> ?n + ?n / 2 ^ 53" by (simp add: algebra_simps)
  have y0: "0 \<le> ?y" using R0 by simp
  have nn: "0 \<le> to_double ?y"
  proof (cases "?y = 0")
    case True
    then show ?thesis by (simp add: to_double_def)
  next
    case False
    with y0 have "0 < ?y" by linarith
    then show ?thesis using to_double_pos[of ?y] by linarith
  qed
  then show "0 \<le> \<lfloor>to_double ?y\<rfloor>" by simp
  have "?n < 2 ^ 32" using N by (metis of_nat_less_iff of_nat_numeral of_nat_power)
  then have n: "?n < 4294967296" by simp
  have R': "1 / 16384 < R" using R by simp
  have "to_double ?y < ?n"
  proof (cases "?y = 0")
    case True
    then have "to_double ?y = 0" by (simp add: to_double_def)
    then show ?thesis using N0 by simp
  next
    case False
    with y0 have "0 < ?y" by linarith
    from to_double_close[OF this] have "to_double ?y \<le> ?y + ?y / 2 ^ 53" by linarith
    then have "to_double ?y \<le> ?y + ?y / 9007199254740992" by simp
    moreover have "?y + R \<le> ?n + ?n / 9007199254740992" using c by simp
    ultimately show ?thesis using n R' by linarith
  qed
  then have "to_double ?y < of_int (int N)" by simp
  then show "\<lfloor>to_double ?y\<rfloor> < int N" by (simp only: floor_less_iff)
qed

lemma ratio_bound:
  assumes "0 < rate"
  shows "1 / 2 ^ 14 < to_double (of_nat rate / 16000)"
proof -
  let ?x = "of_nat rate / 16000 :: rat"
  have "(1::rat) \<le> of_nat rate" using assms by simp
  then have lo: "1 / 16000 \<le> ?x" by simp
  then have x0: "0 < ?x" by linarith
  from to_double_close[OF x0] have "?x - ?x / 2 ^ 53 \<le> to_double ?x" by linarith
  then have "?x - ?x / 9007199254740992 \<le> to_double ?x" by simp
  then have "1 / 16384 < to_double ?x" using lo by linarith
  then show ?thesis by simp
qed

text \<open>
  Claim C8, as stated, fails: the quotients and the product are rounded to double
  precision, and the floor of a rounded value can be one less than the floor of the
  exact one. At 37800 Hz, of 1000 samples with sample \<open>i\<close> of value \<open>i\<close>, 423 come out and
  output sample 400 is input sample 944, where \<open>floor(400 * 37800 / 16000)\<close> is 945. At
  16001 Hz, 16001 samples give 15999, where \<open>floor(16001 / (16001 / 16000))\<close> is 16000.
\<close>

theorem resample_nearest_neighbour_counterexample:
  "(\<exists>out. processAudioBlob (Inr \<lparr>channels = [ramp 1000], sampleRate = 37800\<rparr>) = Inr out
        \<and> length out = 423 \<and> out ! 400 = Val 944)
   \<and> nat \<lfloor>1000 / (37800 / 16000 :: rat)\<rfloor> = 423
   \<and> read_sample (ramp 1000) \<lfloor>400 * (37800 / 16000 :: rat)\<rfloor> = Val 945
   \<and> (\<exists>out. processAudioBlob (Inr \<lparr>channels = [ramp 16001], sampleRate = 16001\<rparr>) = Inr out
        \<and> length out = 15999)
   \<and> nat \<lfloor>16001 / (16001 / 16000 :: rat)\<rfloor> = 16000"
proof -
  let ?R = "2659938529915699 / 1125899906842624 :: rat"
  let ?S = "4503881102347207 / 4503599627370496 :: rat"
  have r: "to_double (of_nat 37800 / 16000) = ?R"
    using to_double_eqI[of 1 "37800 / 16000" 5319877059831398] by (simp add: power_int_minus)
  have "to_double (of_nat 1000 / ?R) = 930803494413545 / 2199023255552"
    using to_double_eqI[of 8 "1000 / ?R" 7446427955308360] by (simp add: power_int_minus)
  then have "\<lfloor>to_double (of_nat 1000 / ?R)\<rfloor> = 423"
    by (simp only:) (simp add: floor_eq_iff)
  then have n: "nat \<lfloor>to_double (of_nat 1000 / ?R)\<rfloor> = 423"
    by simp
  have "to_double (of_nat 400 * ?R) = 8312307905986559 / 8796093022208"
    using to_double_eqI[of 9 "400 * ?R" 8312307905986559] by (simp add: power_int_minus)
  then have i: "\<lfloor>to_double (of_nat 400 * ?R)\<rfloor> = 944"
    by (simp only:) (simp add: floor_eq_iff)
  have "resample 37800 (ramp 1000) =
      Inr (map (\<lambda>j. read_sample (ramp 1000) \<lfloor>to_double (of_nat j * to_double (of_nat 37800 / 16000))\<rfloor>)
             [0..<nat \<lfloor>to_double (of_nat (length (ramp 1000)) / to_double (of_nat 37800 / 16000))\<rfloor>])"
    by (rule resample_eq) simp
  then have e: "resample 37800 (ramp 1000) =
      Inr (map (\<lambda>j. read_sample (ramp 1000) \<lfloor>to_double (of_nat j * ?R)\<rfloor>) [0..<423])"
    by (simp only: r length_ramp n)
  have "map (\<lambda>j. read_sample (ramp 1000) \<lfloor>to_double (of_nat j * ?R)\<rfloor>) [0..<423] ! 400
      = read_sample (ramp 1000) \<lfloor>to_double (of_nat 400 * ?R)\<rfloor>"
    by (rule nth_map_upt0) simp
  also have "\<dots> = Val 944" by (simp only: i) (simp add: read_sample_def length_ramp ramp_nth)
  finally have v: "map (\<lambda>j. read_sample (ramp 1000) \<lfloor>to_double (of_nat j * ?R)\<rfloor>) [0..<423] ! 400
      = Val 944" .
  have p: "processAudioBlob (Inr \<lparr>channels = [ramp 1000], sampleRate = 37800\<rparr>)
      = resample 37800 (ramp 1000)"
    by (simp add: processAudioBlob_def)
  have a: "\<exists>out. processAudioBlob (Inr \<lparr>channels = [ramp 1000], sampleRate = 37800\<rparr>) = Inr out
        \<and> length out = 423 \<and> out ! 400 = Val 944"
    using v by (simp only: p e) simp
  have "\<lfloor>1000 / (37800 / 16000 :: rat)\<rfloor> = 423"
    by (simp add: floor_eq_iff)
  then have b: "nat \<lfloor>1000 / (37800 / 16000 :: rat)\<rfloor> = 423"
    by simp
  have c: "read_sample (ramp 1000) \<lfloor>400 * (37800 / 16000 :: rat)\<rfloor> = Val 945"
    by (simp add: read_sample_def length_ramp ramp_nth)
  have s: "to_double (of_nat 16001 / 16000) = ?S"
    using to_double_eqI[of 0 "16001 / 16000" 4503881102347207] by (simp add: power_int_minus)
  have "to_double (of_nat 16001 / ?S) = 8796093022207999 / 549755813888"
    using to_double_eqI[of 13 "16001 / ?S" 8796093022207999] by (simp add: power_int_minus)
  then have "\<lfloor>to_double (of_nat 16001 / ?S)\<rfloor> = 15999"
    by (simp only:) (simp add: floor_eq_iff)
  then have m: "nat \<lfloor>to_double (of_nat 16001 / ?S)\<rfloor> = 15999"
    by simp
  have "resample 16001 (ramp 16001) =
      Inr (map (\<lambda>j. read_sample (ramp 16001) \<lfloor>to_double (of_nat j * to_double (of_nat 16001 / 16000))\<rfloor>)
             [0..<nat \<lfloor>to_double (of_nat (length (ramp 16001)) / to_double (of_nat 16001 / 16000))\<rfloor>])"
    by (rule resample_eq) simp
  then have f: "resample 16001 (ramp 16001) =
      Inr (map (\<lambda>j. read_sample (ramp 16001) \<lfloor>to_double (of_nat j * ?S)\<rfloor>) [0..<15999])"
    by (simp only: s length_ramp m)
  have q: "processAudioBlob (Inr \<lparr>channels = [ramp 16001], sampleRate = 16001\<rparr>)
      = resample 16001 (ramp 16001)"
    by (simp add: processAudioBlob_def)
  have d: "\<exists>out. processAudioBlob (Inr \<lparr>channels = [ramp 16001], sampleRate = 16001\<rparr>) = Inr out
        \<and> length out = 15999"
    by (simp only: q f) simp
  have g: "nat \<lfloor>16001 / (16001 / 16000 :: rat)\<rfloor> = 16000"
    by simp
  show ?thesis
    by (intro conjI) (fact a b c d g)+
qed

text \<open>
  Claim C8, amended. When the sample rate \<open>r\<close> of the decoded buffer differs from 16000,
  the output has \<open>floor(fl(N / fl(r / 16000)))\<close> samples and output sample \<open>i\<close> is input
  sample \<open>floor(fl(i * fl(r / 16000)))\<close>, where \<open>fl\<close> rounds to double precision; for a
  length below \<open>2^32\<close> every such index lies within the input. When the rate is a
  multiple \<open>16000 * k\<close> of 16000, for a length below \<open>2^53\<close>, no rounding error occurs:
  the output has \<open>N div k\<close> samples and output sample \<open>i\<close> is input sample \<open>i * k\<close>. In
  particular at 48000 Hz the output has \<open>N div 3\<close> samples, every third sample of the
  input.
\<close>

theorem resample_nearest_neighbour:
  assumes "channels audioBuffer = audioData # others"
    and "sampleRate audioBuffer \<noteq> 16000" and "0 < sampleRate audioBuffer"
  shows "\<exists>out. processAudioBlob (Inr audioBuffer) = Inr out
      \<and> length out = nat \<lfloor>to_double (of_nat (length audioData)
                               / to_double (of_nat (sampleRate audioBuffer) / 16000))\<rfloor>
      \<and> (\<forall>i<length out. out ! i = read_sample audioData
            \<lfloor>to_double (of_nat i * to_double (of_nat (sampleRate audioBuffer) / 16000))\<rfloor>)
      \<and> (length audioData < 2 ^ 32 \<longrightarrow>
            (\<forall>i<length out.
                nat \<lfloor>to_double (of_nat i * to_double (of_nat (sampleRate audioBuffer) / 16000))\<rfloor>
                  < length audioData
              \<and> out ! i = audioData !
                  nat \<lfloor>to_double (of_nat i * to_double (of_nat (sampleRate audioBuffer) / 16000))\<rfloor>))
      \<and> (\<forall>k. sampleRate audioBuffer = 16000 * k \<and> k < 2 ^ 53 \<and> length audioData < 2 ^ 53 \<longrightarrow>
            length out = length audioData div k
          \<and> (\<forall>i<length out. i * k < length audioData \<and> out ! i = audioData ! (i * k)))
      \<and> (sampleRate audioBuffer = 48000 \<and> length audioData < 2 ^ 53 \<longrightarrow>
            length out = length audioData div 3
          \<and> (\<forall>i<length out. out ! i = audioData ! (3 * i)))"
proof -
  let ?rate = "sampleRate audioBuffer"
  let ?ratio = "to_double (of_nat ?rate / 16000)"
  let ?n = "nat \<lfloor>to_double (of_nat (length audioData) / ?ratio)\<rfloor>"
  let ?out = "map (\<lambda>j. read_sample audioData \<lfloor>to_double (of_nat j * ?ratio)\<rfloor>) [0..<?n]"
  have p: "processAudioBlob (Inr audioBuffer) = Inr ?out"
    using assms by (simp add: processAudioBlob_def resample_eq)
  have len: "length ?out = ?n" by simp
  have nth: "?out ! i = read_sample audioData \<lfloor>to_double (of_nat i * ?ratio)\<rfloor>" if "i < ?n" for i
    using that by simp
  have exact: "?n = length audioData div k
      \<and> (\<forall>i<?n. i * k < length audioData \<and> ?out ! i = audioData ! (i * k))"
    if rate: "?rate = 16000 * k" and k: "k < 2 ^ 53" and n: "length audioData < 2 ^ 53" for k
  proof -
    have k0: "0 < k" using assms(3) rate by simp
    have "(of_nat ?rate / 16000 :: rat) = of_nat k" by (simp add: rate)
    then have ratio: "?ratio = of_nat k" using to_double_nat[OF k] by simp
    have n': "?n = length audioData div k"
      using floor_to_double_div[OF k0 n] by (simp add: ratio)
    have "i * k < length audioData \<and> ?out ! i = audioData ! (i * k)" if i: "i < ?n" for i
    proof -
      have "i < length audioData div k" using i n' by simp
      then have "i + 1 \<le> length audioData div k" by simp
      then have "(i + 1) * k \<le> length audioData div k * k" by (rule mult_le_mono1)
      also have "\<dots> \<le> length audioData" by (rule div_times_less_eq_dividend)
      finally have b: "i * k < length audioData" using k0 by simp
      then have "i * k < 2 ^ 53" using n by linarith
      then have "\<lfloor>to_double (of_nat i * of_nat k)\<rfloor> = int (i * k)" by (rule floor_to_double_mult)
      then have "\<lfloor>to_double (of_nat i * ?ratio)\<rfloor> = int (i * k)" by (simp only: ratio)
      moreover have "read_sample audioData (int (i * k)) = audioData ! (i * k)"
        using b by (simp only: read_sample_def of_nat_less_iff of_nat_0_le_iff nat_int simp_thms if_True)
      ultimately have "read_sample audioData \<lfloor>to_double (of_nat i * ?ratio)\<rfloor> = audioData ! (i * k)"
        by (simp only:)
      then show ?thesis using b nth[OF i] by simp
    qed
    then show ?thesis using n' by simp
  qed
  have within: "nat \<lfloor>to_double (of_nat i * ?ratio)\<rfloor> < length audioData
      \<and> ?out ! i = audioData ! nat \<lfloor>to_double (of_nat i * ?ratio)\<rfloor>"
    if n: "length audioData < 2 ^ 32" and i: "i < ?n" for i
  proof -
    have r: "1 / 2 ^ 14 < ?ratio" using assms(3) by (rule ratio_bound)
    have b: "0 \<le> \<lfloor>to_double (of_nat i * ?ratio)\<rfloor>"
        "\<lfloor>to_double (of_nat i * ?ratio)\<rfloor> < int (length audioData)"
      using resample_index_in_range[OF r n i] by simp_all
    then have "read_sample audioData \<lfloor>to_double (of_nat i * ?ratio)\<rfloor>
        = audioData ! nat \<lfloor>to_double (of_nat i * ?ratio)\<rfloor>"
      by (simp only: read_sample_def simp_thms if_True)
    moreover have "nat \<lfloor>to_double (of_nat i * ?ratio)\<rfloor> < length audioData"
      using b by linarith
    ultimately show ?thesis by (simp only: nth[OF i] simp_thms)
  qed
  have c2: "length ?out = ?n" by simp
  have c6: "length audioData < 2 ^ 32 \<longrightarrow>
            (\<forall>i<length ?out.
                nat \<lfloor>to_double (of_nat i * ?ratio)\<rfloor> < length audioData
              \<and> ?out ! i = audioData ! nat \<lfloor>to_double (of_nat i * ?ratio)\<rfloor>)"
    unfolding len using within by blast
  have c3: "\<forall>i<length ?out. ?out ! i = read_sample audioData \<lfloor>to_double (of_nat i * ?ratio)\<rfloor>"
    by simp
  have c4: "\<forall>k. ?rate = 16000 * k \<and> k < 2 ^ 53 \<and> length audioData < 2 ^ 53 \<longrightarrow>
            length ?out = length audioData div k
          \<and> (\<forall>i<length ?out. i * k < length audioData \<and> ?out ! i = audioData ! (i * k))"
    unfolding len using exact by blast
  have c5: "?rate = 48000 \<and> length audioData < 2 ^ 53 \<longrightarrow>
            length ?out = length audioData div 3
          \<and> (\<forall>i<length ?out. ?out ! i = audioData ! (3 * i))"
    unfolding len using exact[of 3] by (simp add: mult.commute)
  show ?thesis
    by (rule exI[of _ ?out], intro conjI) (fact p c2 c3 c4 c5 c6)+
qed

text \<open>
  Claim C8, amended, at ten samples of 48000 Hz: samples 0, 3 and 6 come out.
\<close>

theorem resample_nearest_neighbour_witness:
  "channels \<lparr>channels = [ramp 10], sampleRate = 48000\<rparr> = ramp 10 # []
   \<and> sampleRate \<lparr>channels = [ramp 10], sampleRate = 48000\<rparr> \<noteq> 16000
   \<and> 0 < sampleRate \<lparr>channels = [ramp 10], sampleRate = 48000\<rparr>
   \<and> sampleRate \<lparr>channels = [ramp 10], sampleRate = 48000\<rparr> = 16000 * 3
   \<and> (3::nat) < 2 ^ 53 \<and> length (ramp 10) < 2 ^ 53 \<and> length (ramp 10) < 2 ^ 32
   \<and> (\<exists>out. processAudioBlob (Inr \<lparr>channels = [ramp 10], sampleRate = 48000\<rparr>) = Inr out
         \<and> length out = 3 \<and> out ! 0 = Val 0 \<and> out ! 1 = Val 3 \<and> out ! 2 = Val 6)"
proof -
  let ?b = "\<lparr>channels = [ramp 10], sampleRate = 48000\<rparr>"
  have h: "channels ?b = ramp 10 # []" "sampleRate ?b \<noteq> 16000" "0 < sampleRate ?b" by simp_all
  have k: "sampleRate ?b = 16000 * 3" "(3::nat) < 2 ^ 53" "length (ramp 10) < 2 ^ 53"
      "length (ramp 10) < 2 ^ 32"
    by (simp_all add: length_ramp)
  obtain out where o: "processAudioBlob (Inr ?b) = Inr out"
    and e: "\<forall>k. sampleRate ?b = 16000 * k \<and> k < 2 ^ 53 \<and> length (ramp 10) < 2 ^ 53 \<longrightarrow>
            length out = length (ramp 10) div k
          \<and> (\<forall>i<length out. i * k < length (ramp 10) \<and> out ! i = ramp 10 ! (i * k))"
    using resample_nearest_neighbour[OF h] by blast
  from e k have l: "length out = length (ramp 10) div 3"
    and v: "\<forall>i<length out. i * 3 < length (ramp 10) \<and> out ! i = ramp 10 ! (i * 3)"
    by blast+
  have l3: "length out = 3" using l by (simp add: length_ramp)
  have "out ! 0 = Val 0" "out ! 1 = Val 3" "out ! 2 = Val 6"
    using v l3 by (simp_all add: ramp_nth)
  with o l3 h k show ?thesis by blast
qed

section \<open>The short path of the transcriber\<close>

text \<open>
  Claim C5, as stated, fails: the text of a capture of at most 25 seconds is not always
  the sanitized output of the engine. On silence the engine answers \<open>[BLANK_AUDIO]\<close>,
  the sanitized output is empty, and the transcriber returns the placeholder
  \<open>[Empty transcription]\<close>.
\<close>

theorem short_capture_placeholder_counterexample:
  "estimatedDuration (length [Val 0]) \<le> 25
   \<and> transcribe_samples blank_engine no_options [Val 0]
       \<noteq> Some (Inr (cleanWhisperOutput_popup (Some (js ''[BLANK_AUDIO]''))))"
  by (simp add: transcribe_samples_def estimatedDuration_def blank_engine_def text_or_def
      js_eval clean_eval)

text \<open>
  Claim C5, amended. A capture of at most 25 seconds is one call of the engine on the
  whole buffer, whatever the options, with no splitting into words and no repetition
  filter: the result is the sanitized output of the engine when that is not empty, the
  placeholder \<open>[Empty transcription]\<close> when it is empty, and the error of the engine
  when it raises.
\<close>

theorem short_capture_single_window:
  assumes "estimatedDuration (length audioData) \<le> 25"
  shows "transcribe_samples eng opts audioData =
           Some (case eng short_options audioData of
                   Inl e \<Rightarrow> Inl e
                 | Inr transcription \<Rightarrow>
                     Inr (if cleanWhisperOutput_popup transcription = []
                          then js ''[Empty transcription]''
                          else cleanWhisperOutput_popup transcription))"
  using assms by (simp add: transcribe_samples_def text_or_def split: sum.splits)

text \<open>
  Claim C5, amended, at one sample of audio on which the engine hears a word four
  times: the four words are the result.
\<close>

theorem short_capture_single_window_witness:
  "estimatedDuration (length [Val 0]) \<le> 25
   \<and> transcribe_samples nine_engine no_options [Val 0] = Some (Inr (js ''nine nine nine nine''))"
proof -
  have h: "estimatedDuration (length [Val 0]) \<le> 25" by (simp add: estimatedDuration_def)
  have c: "cleanWhisperOutput_popup (Some (js ''nine nine nine nine'')) = js ''nine nine nine nine''"
    by (simp add: js_eval clean_eval)
  from short_capture_single_window[OF h, of nine_engine no_options] c h
  show ?thesis by (simp add: nine_engine_def js_def)
qed

section \<open>The chunks of processLongRecording\<close>

text \<open>
  The test \<open>chunkLength < 0.5\<close> compares a number of samples: it holds for a chunk
  without samples only.
\<close>

lemma skipped_iff: "skipped c \<longleftrightarrow> chunkLength c \<le> 0"
proof (cases "chunkLength c \<le> 0")
  case True
  then have "(of_int (chunkLength c) :: rat) \<le> 0" by simp
  then have "(of_int (chunkLength c) :: rat) < 1 / 2" by linarith
  with True show ?thesis by (simp add: skipped_def)
next
  case False
  then have "1 \<le> chunkLength c" by simp
  then have "(1 :: rat) \<le> of_int (chunkLength c)" by simp
  then have "\<not> (of_int (chunkLength c) :: rat) < 1 / 2" by linarith
  with False show ?thesis by (simp add: skipped_def)
qed

declare chunk_step.simps [simp del]

text \<open>
  Claim C6. A window shorter than 0.5 seconds is skipped and contributes nothing. The
  code compares \<open>chunkLength\<close>, a number of samples, with 0.5: of a recording of 30
  seconds and 100 samples at 48 kHz the second chunk has 100 samples, about 2 ms; it is
  not skipped, and its text stands in the transcript.
\<close>

theorem tiny_chunk_is_transcribed:
  "web_audio_path tiny_env [] = Some (js ''long tiny'')
   \<and> chunkLength (chunk_of 48000 1440100 1) = 100
   \<and> (100 :: rat) / 48000 < 1 / 2
   \<and> \<not> skipped (chunk_of 48000 1440100 1)"
proof -
  let ?c0 = "\<lparr>startTime = 0, endTime = 1440000, frames = 69120000000, startSample = 0,
              endSample = 69120000000\<rparr>"
  let ?c1 = "\<lparr>startTime = 1440000, endTime = 1440100, frames = 4800000,
              startSample = 69120000000, endSample = 69124800000\<rparr>"
  have c: "\<lceil>(1440100::rat) / 1440000\<rceil> = 2" by (simp add: ceiling_eq_iff)
  have n: "iterations (js_ceil (js_div 1440100 1440000)) = Some 2"
    using c by (simp add: js_div_def js_ceil_def iterations_def)
  have cs: "map (chunk_of 48000 1440100) [0..<2] = [?c0, ?c1]"
    by (simp add: chunk_of_def Let_def upt_conv_Cons)
  have l: "cleanWhisperOutput (Some (js ''long'')) = js ''long''"
    by (simp add: js_eval clean_eval)
  have t: "cleanWhisperOutput (Some (js ''tiny'')) = js ''tiny''"
    by (simp add: js_eval clean_eval)
  have s0: "chunk_step tiny_env ?c0 ([], []) = (None, js ''long'', js ''long [transcribing...]'')"
    using l by (simp add: chunk_step.simps tiny_env_def tiny_transcribe_def skipped_def chunkLength_def
        Let_def js_def)
  have s1: "chunk_step tiny_env ?c1 (js ''long'', js ''long [transcribing...]'')
              = (None, js ''long tiny'', js ''long tiny [transcribing...]'')"
    using t by (simp add: chunk_step.simps tiny_env_def tiny_transcribe_def skipped_def chunkLength_def
        Let_def js_def)
  have lp: "chunks_loop tiny_env [?c0, ?c1] ([], []) = (None, js ''long tiny'', js ''long tiny [transcribing...]'')"
    by (simp add: s0 s1)
  have d: "decodeAudioData tiny_env = Inr \<lparr>channels = [silence 1440100], sampleRate = 48000\<rparr>"
    by (simp add: tiny_env_def)
  have m: "mono_mix \<lparr>channels = [silence 1440100], sampleRate = 48000\<rparr> = Inr (silence 1440100)"
    by (simp add: mono_mix_def)
  have w: "web_audio_path tiny_env [] = Some (js ''long tiny'')"
    by (simp add: web_audio_path_def d m length_silence n cs s0 s1) (simp add: js_def)
  have k: "chunk_of 48000 1440100 (Suc 0) = ?c1"
    by (simp add: chunk_of_def Let_def)
  show ?thesis using w by (simp add: k skipped_def chunkLength_def)
qed


lemma chunk_step_cases:
  "chunk_step env c (full, v) =
     (if skipped c then (None, full, v)
      else case chunk_blob env c of
             Some e \<Rightarrow> (Some e, full, v)
           | None \<Rightarrow>
               (case transcribe env (Chunk c) of
                  Inr (Some t) \<Rightarrow>
                    if cleanWhisperOutput (Some t) = [] then (None, full, v)
                    else (None, full @ (if full \<noteq> [] then [32] else []) @ cleanWhisperOutput (Some t),
                          full @ (if full \<noteq> [] then [32] else []) @ cleanWhisperOutput (Some t)
                            @ js '' [transcribing...]'')
                | _ \<Rightarrow> (None, full, v)))"
  by (simp add: chunk_step.simps Let_def cleanWhisperOutput_def
      split: option.splits sum.splits)

lemma chunk_step_failed:
  assumes "transcribe env (Chunk c) = Inl e" and "chunk_blob env c = None"
  shows "chunk_step env c st = (None, st)"
  using assms by (cases st) (simp add: chunk_step_cases)

lemma chunk_step_no_error:
  assumes "chunk_blob env c = None"
  shows "fst (chunk_step env c st) = None"
  using assms by (cases st) (simp add: chunk_step_cases split: sum.splits option.splits)

lemma chunk_step_prefix: "prefix (fst st) (fst (snd (chunk_step env c st)))"
  by (cases st) (simp add: chunk_step_cases split: sum.splits option.splits)

lemma chunk_step_keeps:
  assumes "sublist s (fst st)"
  shows "sublist s (fst (snd (chunk_step env c st)))"
  using assms chunk_step_prefix[of st env c]
  by (meson prefix_imp_sublist sublist_order.order_trans)

lemma chunk_step_text:
  assumes "\<not> skipped c" and "chunk_blob env c = None"
    and "transcribe env (Chunk c) = Inr (Some t)" and "cleanWhisperOutput (Some t) \<noteq> []"
  shows "sublist (cleanWhisperOutput (Some t)) (fst (snd (chunk_step env c st)))"
proof -
  obtain full v where st: "st = (full, v)" by (cases st)
  have "sublist (cleanWhisperOutput (Some t)) (full @ sep @ cleanWhisperOutput (Some t))" for sep
    by (metis sublist_appendI append.assoc append_Nil2)
  then show ?thesis using assms st by (simp add: chunk_step_cases)
qed

lemma chunks_loop_no_error:
  assumes "\<forall>c\<in>set cs. chunk_blob env c = None"
  shows "fst (chunks_loop env cs st) = None"
  using assms
proof (induction cs arbitrary: st)
  case Nil
  then show ?case by simp
next
  case (Cons c cs)
  then have "fst (chunk_step env c st) = None" by (simp add: chunk_step_no_error)
  then obtain st' where "chunk_step env c st = (None, st')" by (cases "chunk_step env c st") auto
  with Cons show ?case by simp
qed

lemma chunks_loop_keeps:
  assumes "\<forall>c\<in>set cs. chunk_blob env c = None" and "sublist s (fst st)"
  shows "sublist s (fst (snd (chunks_loop env cs st)))"
  using assms
proof (induction cs arbitrary: st)
  case Nil
  then show ?case by (cases st) simp
next
  case (Cons c cs)
  then have "fst (chunk_step env c st) = None" by (simp add: chunk_step_no_error)
  then obtain st' where st': "chunk_step env c st = (None, st')"
    by (cases "chunk_step env c st") auto
  have "sublist s (fst st')"
    using chunk_step_keeps[OF Cons.prems(2), of env c] st' by simp
  with Cons st' show ?case by simp
qed

lemma chunks_loop_text:
  assumes "\<forall>c\<in>set cs. chunk_blob env c = None" and "c \<in> set cs" and "\<not> skipped c"
    and "transcribe env (Chunk c) = Inr (Some t)" and "cleanWhisperOutput (Some t) \<noteq> []"
  shows "sublist (cleanWhisperOutput (Some t)) (fst (snd (chunks_loop env cs st)))"
  using assms(1,2)
proof (induction cs arbitrary: st)
  case Nil
  then show ?case by simp
next
  case (Cons d cs)
  then have "fst (chunk_step env d st) = None" by (simp add: chunk_step_no_error)
  then obtain st' where st': "chunk_step env d st = (None, st')"
    by (cases "chunk_step env d st") auto
  show ?case
  proof (cases "d = c")
    case True
    have "sublist (cleanWhisperOutput (Some t)) (fst st')"
      using chunk_step_text[OF assms(3) _ assms(4,5), of st] Cons.prems(1) True st' by simp
    then show ?thesis
      using chunks_loop_keeps[of cs env "cleanWhisperOutput (Some t)" st'] Cons.prems(1) st'
      by simp
  next
    case False
    with Cons st' show ?thesis by simp
  qed
qed


lemma chunks_loop_append:
  assumes "\<forall>c\<in>set cs1. chunk_blob env c = None"
  shows "chunks_loop env (cs1 @ cs2) st = chunks_loop env cs2 (snd (chunks_loop env cs1 st))"
  using assms
proof (induction cs1 arbitrary: st)
  case Nil
  then show ?case by simp
next
  case (Cons c cs)
  then have "fst (chunk_step env c st) = None" by (simp add: chunk_step_no_error)
  then obtain st' where "chunk_step env c st = (None, st')" by (cases "chunk_step env c st") auto
  with Cons show ?case by simp
qed

lemma chunks_loop_failed:
  assumes "\<forall>d\<in>set cs1. chunk_blob env d = None" and "chunk_blob env c = None"
    and "transcribe env (Chunk c) = Inl e"
  shows "chunks_loop env (cs1 @ c # cs2) st = chunks_loop env (cs1 @ cs2) st"
  using assms by (simp add: chunks_loop_append chunk_step_failed)

text \<open>
  The loop of \<open>processLongRecording\<close> over the chunks has a \<open>try\<close> around every call of
  the transcriber. When the making of the blobs does not fail, no error leaves the loop,
  whatever the transcriber does; a chunk whose call raises contributes nothing, the loop
  ending as it does without that chunk; the cleaned text of every chunk whose call
  returns one stands in the full transcription; and the full transcription, when it is
  not empty, is the transcript that the Web Audio path leaves.
\<close>

lemma chunk_failure_isolated:
  assumes "\<forall>c\<in>set cs. chunk_blob env c = None"
  shows "fst (chunks_loop env cs ([], v)) = None
       \<and> (\<forall>cs1 c cs2 e. cs = cs1 @ c # cs2 \<and> transcribe env (Chunk c) = Inl e \<longrightarrow>
             chunks_loop env cs ([], v) = chunks_loop env (cs1 @ cs2) ([], v))
       \<and> (\<forall>c t. c \<in> set cs \<and> \<not> skipped c \<and> transcribe env (Chunk c) = Inr (Some t)
               \<and> cleanWhisperOutput (Some t) \<noteq> [] \<longrightarrow>
             sublist (cleanWhisperOutput (Some t)) (fst (snd (chunks_loop env cs ([], v)))))
       \<and> (\<forall>audioBuffer audioData k.
             decodeAudioData env = Inr audioBuffer \<and> mono_mix audioBuffer = Inr audioData
             \<and> iterations (js_ceil (js_div (int (length audioData)) (30 * int (sampleRate audioBuffer))))
                 = Some k
             \<and> cs = map (chunk_of (sampleRate audioBuffer) (length audioData)) [0..<k]
             \<and> fst (snd (chunks_loop env cs ([], v))) \<noteq> [] \<longrightarrow>
             web_audio_path env v = Some (fst (snd (chunks_loop env cs ([], v)))))"
proof -
  have ok: "fst (chunks_loop env cs ([], v)) = None"
    using assms by (rule chunks_loop_no_error)
  have failed: "chunks_loop env cs ([], v) = chunks_loop env (cs1 @ cs2) ([], v)"
    if "cs = cs1 @ c # cs2" "transcribe env (Chunk c) = Inl e" for cs1 c cs2 e
    using that assms by (simp add: chunks_loop_failed)
  have present: "sublist (cleanWhisperOutput (Some t)) (fst (snd (chunks_loop env cs ([], v))))"
    if "c \<in> set cs" "\<not> skipped c" "transcribe env (Chunk c) = Inr (Some t)"
      "cleanWhisperOutput (Some t) \<noteq> []" for c t
    using chunks_loop_text[OF assms that] .
  have final: "web_audio_path env v = Some (fst (snd (chunks_loop env cs ([], v))))"
    if "decodeAudioData env = Inr audioBuffer" "mono_mix audioBuffer = Inr audioData"
      "iterations (js_ceil (js_div (int (length audioData)) (30 * int (sampleRate audioBuffer)))) = Some k"
      "cs = map (chunk_of (sampleRate audioBuffer) (length audioData)) [0..<k]"
      "fst (snd (chunks_loop env cs ([], v))) \<noteq> []" for audioBuffer audioData k
  proof -
    obtain full v' where r: "chunks_loop env cs ([], v) = (None, full, v')"
      using ok by (cases "chunks_loop env cs ([], v)") auto
    with that show ?thesis by (simp add: web_audio_path_def Let_def)
  qed
  show ?thesis
    using ok failed present final by blast
qed

text \<open>
  At three chunks of which the second raises, the transcript of \<open>processLongRecording\<close>
  holds the texts of the first and the third.
\<close>

lemma chunk_failure_isolated_witness:
  "chunk_blob three_env (chunk_of 48000 2880100 0) = None
   \<and> chunk_blob three_env (chunk_of 48000 2880100 1) = None
   \<and> chunk_blob three_env (chunk_of 48000 2880100 2) = None
   \<and> transcribe three_env (Chunk (chunk_of 48000 2880100 1)) = Inl (Error ''failed'')
   \<and> fst (chunks_loop three_env (map (chunk_of 48000 2880100) [0..<3]) ([], [])) = None
   \<and> fst (snd (chunks_loop three_env (map (chunk_of 48000 2880100) [0..<3]) ([], [])))
        = js ''one three''
   \<and> web_audio_path three_env [] = Some (js ''one three'')"
proof -
  let ?c0 = "\<lparr>startTime = 0, endTime = 1440000, frames = 69120000000, startSample = 0,
              endSample = 69120000000\<rparr>"
  let ?c1 = "\<lparr>startTime = 1440000, endTime = 2880000, frames = 69120000000,
              startSample = 69120000000, endSample = 138240000000\<rparr>"
  let ?c2 = "\<lparr>startTime = 2880000, endTime = 2880100, frames = 4800000,
              startSample = 138240000000, endSample = 138244800000\<rparr>"
  let ?cs = "map (chunk_of 48000 2880100) [0..<3]"
  have cs: "?cs = [?c0, ?c1, ?c2]"
    by (simp add: chunk_of_def Let_def upt_conv_Cons)
  have blobs: "\<forall>c\<in>set ?cs. chunk_blob three_env c = None"
    by (simp add: three_env_def)
  have k: "chunk_of 48000 2880100 1 = ?c1"
    by (simp add: chunk_of_def Let_def)
  have failed: "transcribe three_env (Chunk ?c1) = Inl (Error ''failed'')"
    by (simp add: three_env_def three_transcribe_def)
  have one: "cleanWhisperOutput (Some (js ''one'')) = js ''one''"
    by (simp add: js_eval clean_eval)
  have three: "cleanWhisperOutput (Some (js ''three'')) = js ''three''"
    by (simp add: js_eval clean_eval)
  have s0: "chunk_step three_env ?c0 ([], []) = (None, js ''one'', js ''one [transcribing...]'')"
    using one by (simp add: chunk_step.simps three_env_def three_transcribe_def skipped_def
        chunkLength_def Let_def js_def)
  have s2: "chunk_step three_env ?c2 (js ''one'', js ''one [transcribing...]'')
              = (None, js ''one three'', js ''one three [transcribing...]'')"
    using three by (simp add: chunk_step.simps three_env_def three_transcribe_def skipped_def
        chunkLength_def Let_def js_def)
  have without: "chunks_loop three_env ([?c0] @ [?c2]) ([], [])
                   = (None, js ''one three'', js ''one three [transcribing...]'')"
    by (simp add: s0 s2)
  have c: "\<lceil>(2880100::rat) / 1440000\<rceil> = 3" by (simp add: ceiling_eq_iff)
  have n: "iterations (js_ceil (js_div (int (length (silence 2880100))) (30 * int 48000))) = Some 3"
    using c by (simp add: js_div_def js_ceil_def iterations_def length_silence)
  have d: "decodeAudioData three_env = Inr \<lparr>channels = [silence 2880100], sampleRate = 48000\<rparr>"
    by (simp add: three_env_def)
  have m: "mono_mix \<lparr>channels = [silence 2880100], sampleRate = 48000\<rparr> = Inr (silence 2880100)"
    by (simp add: mono_mix_def)
  note iso = chunk_failure_isolated[OF blobs, of "[]"]
  have ok: "fst (chunks_loop three_env ?cs ([], [])) = None"
    using iso by blast
  have same: "chunks_loop three_env ?cs ([], []) = chunks_loop three_env ([?c0] @ [?c2]) ([], [])"
  proof -
    have "?cs = [?c0] @ ?c1 # [?c2] \<and> transcribe three_env (Chunk ?c1) = Inl (Error ''failed'')"
      using cs failed by simp
    with iso show ?thesis by blast
  qed
  have full: "fst (snd (chunks_loop three_env ?cs ([], []))) = js ''one three''"
    by (simp only: same without fst_conv snd_conv)
  have "web_audio_path three_env [] = Some (fst (snd (chunks_loop three_env ?cs ([], []))))"
  proof -
    have "decodeAudioData three_env = Inr \<lparr>channels = [silence 2880100], sampleRate = 48000\<rparr>
        \<and> mono_mix \<lparr>channels = [silence 2880100], sampleRate = 48000\<rparr> = Inr (silence 2880100)
        \<and> iterations (js_ceil (js_div (int (length (silence 2880100)))
              (30 * int (sampleRate \<lparr>channels = [silence 2880100], sampleRate = 48000\<rparr>)))) = Some 3
        \<and> ?cs = map (chunk_of (sampleRate \<lparr>channels = [silence 2880100], sampleRate = 48000\<rparr>)
                    (length (silence 2880100))) [0..<3]
        \<and> fst (snd (chunks_loop three_env ?cs ([], []))) \<noteq> []"
      using d m n full by (simp add: length_silence js_def)
    with iso show ?thesis by blast
  qed
  then have w: "web_audio_path three_env [] = Some (js ''one three'')"
    by (simp only: full)
  have each: "chunk_blob three_env c = None" for c
    by (simp add: three_env_def)
  show ?thesis
    using each failed ok full w by (simp only: k simp_thms)
qed

section \<open>A failing window in the transcriber\<close>

text \<open>
  Claim C3. The loop of the transcriber over its windows is not fault-tolerant: the call
  of the engine has no \<open>try\<close> of its own, and the \<open>catch\<close> around the whole function
  rethrows. 500000 samples at 16 kHz, 31.25 s, make the two windows of samples 0 to
  320000 and 240000 to 500000. When the engine returns \<open>one\<close> for the first window and
  raises on the second, the transcriber raises that error: the error leaves the call,
  and the text of the first window is lost.
\<close>

theorem transcriber_loses_first_window:
  "segment (merge_options no_options) 500000 = Some [(0, 320000), (240000, 500000)]
   \<and> second_window_fails (merge_options no_options) (js_slice 0 320000 (silence 500000))
       = Inr (Some (js ''one''))
   \<and> second_window_fails (merge_options no_options) (js_slice 240000 500000 (silence 500000))
       = Inl (Error ''failed'')
   \<and> transcriber second_window_fails
         (Inr \<lparr>channels = [silence 500000], sampleRate = 16000\<rparr>) no_options
       = Some (Inl (Error ''failed''))"
proof -
  have c: "\<lceil>(180000::rat) / 240000\<rceil> = 1" by (simp add: ceiling_eq_iff)
  have seg: "segment (merge_options no_options) 500000 = Some [(0, 320000), (240000, 500000)]"
    using c by (simp add: segment_def merge_options_def no_options_def or_default_def
        adjusted_sizes_def estimatedDuration_def numChunks_def js_div_def js_ceil_def js_succ_def
        iterations_def chunk_bounds_def Let_def upt_conv_Cons)
  have l1: "length (js_slice 0 320000 (silence 500000)) = 320000"
    by (simp add: js_slice_def Let_def length_silence)
  have l2: "length (js_slice 240000 500000 (silence 500000)) = 260000"
    by (simp add: js_slice_def Let_def length_silence)
  have e1: "second_window_fails co (js_slice 0 320000 (silence 500000)) = Inr (Some (js ''one''))" for co
    by (simp add: second_window_fails_def l1)
  have e2: "second_window_fails co (js_slice 240000 500000 (silence 500000)) = Inl (Error ''failed'')" for co
    by (simp add: second_window_fails_def l2)
  have p: "processAudioBlob (Inr \<lparr>channels = [silence 500000], sampleRate = 16000\<rparr>)
             = Inr (silence 500000)"
    by (simp add: processAudioBlob_def)
  have d: "estimatedDuration (length (silence 500000)) > 25"
    by (simp add: estimatedDuration_def length_silence)
  have "transcribe_samples second_window_fails no_options (silence 500000) = Some (Inl (Error ''failed''))"
    using d by (simp add: transcribe_samples_def Let_def length_silence seg e1 e2)
  then show ?thesis using seg e1 e2 by (simp add: transcriber_def p)
qed

section \<open>Channels\<close>

text \<open>
  Claim C7, as stated, fails: the normalizer of the transcriber does not average the
  channels. On a stereo buffer with the samples 1 and 0 its output is not the mean.
\<close>

theorem first_channel_not_mean_counterexample:
  "processAudioBlob (Inr stereo_buffer) \<noteq> Inr [mean2 (Val 1) (Val 0)]"
  by (simp add: processAudioBlob_def stereo_buffer_def)

text \<open>
  Claim C7, amended. \<open>processAudioBlob\<close> takes channel 0 of the decoded buffer and
  ignores the other channels: its output, always one channel, is that of the buffer
  reduced to channel 0, and is channel 0 itself at 16000 Hz. The mono data that
  \<open>processLongRecording\<close> builds are channel 0 for one channel and the mean of channels
  0 and 1 for more.
\<close>

theorem normalizer_takes_first_channel:
  assumes "channels audioBuffer = first # others"
  shows "processAudioBlob (Inr audioBuffer) = processAudioBlob (Inr (audioBuffer\<lparr>channels := [first]\<rparr>))
       \<and> (sampleRate audioBuffer = 16000 \<longrightarrow> processAudioBlob (Inr audioBuffer) = Inr first)
       \<and> (others = [] \<longrightarrow> mono_mix audioBuffer = Inr first)
       \<and> (\<forall>right rest. others = right # rest \<and> length right = length first \<longrightarrow>
             mono_mix audioBuffer = Inr (map (\<lambda>(l, r). mean2 l r) (zip first right)))"
proof -
  have "map (\<lambda>i. mean2 (read_sample first (int i)) (read_sample right (int i))) [0..<length first]
        = map (\<lambda>(l, r). mean2 l r) (zip first right)" if "length right = length first" for right
    using that by (intro nth_equalityI) (auto simp: read_sample_def)
  then show ?thesis
    using assms by (auto simp: processAudioBlob_def mono_mix_def)
qed

text \<open>
  Claim C7, amended, at the stereo buffer with the samples 1 and 0: the normalizer
  yields 1, the mono data of \<open>processLongRecording\<close> 1/2.
\<close>

theorem normalizer_takes_first_channel_witness:
  "channels stereo_buffer = [Val 1] # [ [Val 0] ]
   \<and> processAudioBlob (Inr stereo_buffer) = Inr [Val 1]
   \<and> mono_mix stereo_buffer = Inr [Val (1 / 2)]"
  using normalizer_takes_first_channel[of stereo_buffer "[Val 1]" "[ [Val 0] ]"]
  by (auto simp: stereo_buffer_def)

section \<open>The fallback of processRecording\<close>

lemma lookup_estimatedDuration_fallback:
  "lookup ''estimatedDuration'' fallback_chain = Inl (ReferenceError ''estimatedDuration'')"
  by (simp add: fallback_chain_def objects_def function_scope_def module_scope_def
      global_scope_def)

lemma lookup_selectedModel_fallback: "lookup ''selectedModel'' fallback_chain = Inr Object"
  by (simp add: fallback_chain_def objects_def function_scope_def module_scope_def
      global_scope_def)

lemma lookup_Math_fallback: "lookup ''Math'' fallback_chain = Inr Object"
  by (simp add: fallback_chain_def objects_def function_scope_def module_scope_def
      global_scope_def)

lemma fallback_attempt_eq:
  "fallback_attempt fenv v evs =
     (Some (case import_transformers fenv of
              Some e \<Rightarrow> e | None \<Rightarrow> ReferenceError ''estimatedDuration''),
      v, evs @ [ImportTransformers])"
  by (simp add: fallback_attempt_def lookup_estimatedDuration_fallback
      lookup_selectedModel_fallback lookup_Math_fallback split: option.splits)

text \<open>
  Claim C10. Whenever the block of \<open>try\<close> in \<open>processRecording\<close> raises, the fallback
  raises before it transcribes anything: \<open>estimatedDuration\<close> is declared in the block of
  \<open>try\<close> and no scope of the block of \<open>catch\<close> has it, so that with the import resolved
  the error is the ReferenceError for that name. The temporary pipeline is neither
  created nor called, the transcript is unchanged, and \<open>processLongRecording\<close> is
  called next; the error of the function, if any, is the original one.
\<close>

theorem fallback_never_transcribes:
  assumes "direct_attempt env fenv v = Some (Some error, v1, evs1)"
  shows "(import_transformers fenv = None \<longrightarrow>
            fst (fallback_attempt fenv v1 evs1) = Some (ReferenceError ''estimatedDuration''))
       \<and> fst (fallback_attempt fenv v1 evs1) \<noteq> None
       \<and> snd (fallback_attempt fenv v1 evs1) = (v1, evs1 @ [ImportTransformers])
       \<and> processRecording env fenv v =
           (case processLongRecording env v1 of
              None \<Rightarrow> None
            | Some (lastError, v3) \<Rightarrow>
                Some (map_option (\<lambda>e. error) lastError, v3,
                      evs1 @ [ImportTransformers, CallProcessLongRecording]))"
  using assms
  by (auto simp: processRecording_def fallback_attempt_eq call_long_def split: option.splits)

text \<open>
  Claim C10, at a recording whose direct transcription fails while a temporary pipeline
  would have returned a text: the text comes from \<open>processLongRecording\<close>.
\<close>

theorem fallback_never_transcribes_witness:
  "direct_attempt failing_env ready_fallback [] = Some (Some (Error ''failed''), [], [CallTranscriber])
   \<and> fst (fallback_attempt ready_fallback [] [CallTranscriber])
        = Some (ReferenceError ''estimatedDuration'')
   \<and> processRecording failing_env ready_fallback []
        = Some (None, js ''hello'', [CallTranscriber, ImportTransformers, CallProcessLongRecording])"
proof -
  have d: "direct_attempt failing_env ready_fallback []
             = Some (Some (Error ''failed''), [], [CallTranscriber])"
    by (simp add: direct_attempt_def failing_env_def ready_fallback_def
        failing_transcribe_def)
  have c: "cleanWhisperOutput (Some (js ''hello'')) = js ''hello''"
    by (simp add: js_eval clean_eval)
  have p: "processLongRecording failing_env [] = Some (None, js ''hello'')"
    using c by (simp add: processLongRecording_def failing_env_def whole_attempt_def
        failing_transcribe_def js_def)
  have i: "import_transformers ready_fallback = None" by (simp add: ready_fallback_def)
  from fallback_never_transcribes[OF d] d p i show ?thesis by simp
qed

section \<open>The sanitizer\<close>

lemma is_space_32: "is_space 32" by (simp add: is_space_def)
lemma is_punct_46: "is_punct 46" by (simp add: is_punct_def)

lemma single_spaced_Cons:
  "single_spaced (c # s) \<longleftrightarrow>
     (is_space c \<longrightarrow> c = 32 \<and> (s \<noteq> [] \<longrightarrow> \<not> is_space (hd s))) \<and> single_spaced s"
  by (cases s) auto

lemma single_spaced_tl: "single_spaced s \<Longrightarrow> single_spaced (tl s)"
  by (cases s) (auto simp: single_spaced_Cons)

lemma single_spaced_drop: "single_spaced s \<Longrightarrow> single_spaced (drop n s)"
proof (induction n arbitrary: s)
  case 0
  then show ?case by simp
next
  case (Suc n)
  then show ?case by (cases s) (auto simp: single_spaced_Cons)
qed

lemma single_spaced_take: "single_spaced s \<Longrightarrow> single_spaced (take n s)"
proof (induction s arbitrary: n)
  case Nil
  then show ?case by simp
next
  case (Cons c s)
  show ?case
  proof (cases n)
    case 0
    then show ?thesis by simp
  next
    case (Suc m)
    have "hd (take m s) = hd s" if "take m s \<noteq> []" using that by (cases s; cases m) auto
    moreover have "s \<noteq> []" if "take m s \<noteq> []" using that by auto
    ultimately show ?thesis
      using Cons Suc by (auto simp: single_spaced_Cons)
  qed
qed

lemma single_spaced_dropWhile: "single_spaced s \<Longrightarrow> single_spaced (dropWhile P s)"
  using single_spaced_drop[of s "length (takeWhile P s)"] by (simp add: dropWhile_eq_drop)

lemma rev_dropWhile_rev: "rev (dropWhile P (rev s)) = take (length s - length (takeWhile P (rev s))) s"
proof -
  have "dropWhile P (rev s) = drop (length (takeWhile P (rev s))) (rev s)"
    by (simp add: dropWhile_eq_drop)
  then show ?thesis by (simp add: rev_drop)
qed

lemma single_spaced_trim: "single_spaced s \<Longrightarrow> single_spaced (trim s)"
  unfolding trim_def rev_dropWhile_rev
  by (intro single_spaced_take single_spaced_dropWhile)

lemma match_spaces_nonspace: "\<not> is_space c \<Longrightarrow> match_spaces (c # cs) = None"
  by (simp add: match_spaces_def)

lemma replace_spaces_single_spaced: "single_spaced (replace_all match_spaces [32] s)"
proof (induction "length s" arbitrary: s rule: less_induct)
  case less
  show ?case
  proof (cases s)
    case Nil
    then show ?thesis by simp
  next
    case (Cons c cs)
    show ?thesis
    proof (cases "is_space c")
      case False
      have "single_spaced (replace_all match_spaces [32] cs)"
        using less[of cs] Cons by simp
      then show ?thesis using False Cons by (simp add: match_spaces_nonspace single_spaced_Cons)
    next
      case True
      let ?rest = "dropWhile is_space cs"
      have eq: "replace_all match_spaces [32] (c # cs) = 32 # replace_all match_spaces [32] ?rest"
        using True by (simp add: match_spaces_def dropWhile_eq_drop)
      have "length ?rest < length s" using Cons by (simp add: length_dropWhile_le less_Suc_eq_le)
      then have ih: "single_spaced (replace_all match_spaces [32] ?rest)" by (rule less)
      have "\<not> is_space (hd (replace_all match_spaces [32] ?rest))"
        if "replace_all match_spaces [32] ?rest \<noteq> []"
      proof (cases ?rest)
        case Nil
        with that show ?thesis by simp
      next
        case (Cons d ds)
        then have "\<not> is_space d" by (metis hd_dropWhile list.distinct(1) list.sel(1))
        then show ?thesis using Cons by (simp add: match_spaces_nonspace)
      qed
      with ih show ?thesis using Cons eq by (simp add: single_spaced_Cons)
    qed
  qed
qed

lemma replace_first_trail_punct_take: "\<exists>k. replace_first match_trail_punct [] s = take k s"
proof (induction s)
  case Nil
  then show ?case by (simp add: match_trail_punct_def)
next
  case (Cons c s)
  then obtain k where k: "replace_first match_trail_punct [] s = take k s" by blast
  show ?case
  proof (cases "match_trail_punct (c # s)")
    case None
    then have "replace_first match_trail_punct [] (c # s) = take (Suc k) (c # s)"
      using k by simp
    then show ?thesis by blast
  next
    case (Some n)
    then have "n = length (c # s)" by (simp add: match_trail_punct_def split: if_splits)
    with Some have "replace_first match_trail_punct [] (c # s) = take 0 (c # s)" by simp
    then show ?thesis by blast
  qed
qed

lemma single_spaced_anchored:
  "single_spaced s \<Longrightarrow> single_spaced (replace_anchored m [] s)"
  by (simp add: replace_anchored_def single_spaced_drop split: option.splits)

lemma single_spaced_trail_punct:
  "single_spaced s \<Longrightarrow> single_spaced (replace_first match_trail_punct [] s)"
  using replace_first_trail_punct_take[of s] by (auto simp: single_spaced_take)

lemma trim_ends:
  assumes "trim s \<noteq> []"
  shows "\<not> is_space (hd (trim s))" and "\<not> is_space (last (trim s))"
proof -
  let ?t = "dropWhile is_space s"
  let ?u = "dropWhile is_space (rev ?t)"
  have u: "?u \<noteq> []" using assms by (simp add: trim_def)
  then have "\<not> is_space (hd ?u)" by (metis hd_dropWhile)
  then show "\<not> is_space (last (trim s))" using u by (simp add: trim_def last_rev)
  have t: "?t \<noteq> []"
  proof
    assume e: "?t = []"
    have "?u = []" by (simp only: e rev.simps dropWhile.simps)
    with u show False by (simp only: not_True_eq_False)
  qed
  then have ht: "\<not> is_space (hd ?t)" by (metis hd_dropWhile)
  have "trim s = take (length ?t - length (takeWhile is_space (rev ?t))) ?t"
    by (simp add: trim_def rev_dropWhile_rev)
  then have "hd (trim s) = hd ?t" using assms by (metis hd_take take_eq_Nil2 gr0I)
  with ht show "\<not> is_space (hd (trim s))" by simp
qed

lemma replace_all_id:
  assumes "\<And>t. suffix t s \<Longrightarrow> m t = None"
  shows "replace_all m r s = s"
  using assms
proof (induction s)
  case Nil
  then show ?case by simp
next
  case (Cons c s)
  have "m (c # s) = None" using Cons.prems by simp
  moreover have "replace_all m r s = s"
    using Cons.prems by (intro Cons.IH) (simp add: suffix_ConsI)
  ultimately show ?case by simp
qed

lemma replace_first_id:
  assumes "\<And>t. suffix t s \<Longrightarrow> m t = None"
  shows "replace_first m r s = s"
  using assms
proof (induction s)
  case Nil
  then show ?case by simp
next
  case (Cons c s)
  have "m (c # s) = None" using Cons.prems by simp
  moreover have "replace_first m r s = s"
    using Cons.prems by (intro Cons.IH) (simp add: suffix_ConsI)
  ultimately show ?case by simp
qed

lemma suffix_not_mem: "suffix t s \<Longrightarrow> c \<notin> set s \<Longrightarrow> c \<notin> set t"
  using set_mono_suffix by blast

lemma match_lit_absent:
  assumes "p \<notin> set s" and "suffix t s"
  shows "match_lit (p # ps) t = None"
proof (cases t)
  case Nil
  then show ?thesis by (simp add: match_lit_def)
next
  case (Cons c cs)
  then have "c \<noteq> p" using assms suffix_not_mem[OF assms(2,1)] by auto
  then show ?thesis using Cons by (simp add: match_lit_def)
qed

lemma remove_lit_id: "p \<notin> set s \<Longrightarrow> replace_all (match_lit (p # ps)) [] s = s"
  by (rule replace_all_id) (rule match_lit_absent)

lemma match_tag_absent: "91 \<notin> set t \<Longrightarrow> match_tag t = None"
  by (cases t) (auto simp: match_tag_def)

lemma match_music_absent: "91 \<notin> set t \<Longrightarrow> match_music t = None"
  by (cases t) (auto simp: match_music_def)

lemma remove_tag_id: "91 \<notin> set s \<Longrightarrow> replace_all match_tag [] s = s"
  by (rule replace_all_id) (simp add: match_tag_absent suffix_not_mem)

lemma music_lead_id: "91 \<notin> set s \<Longrightarrow> replace_anchored match_music_lead [] s = s"
proof -
  assume a: "91 \<notin> set s"
  have "91 \<notin> set (dropWhile is_space s)" using a set_dropWhileD by fastforce
  then show ?thesis
    by (simp add: replace_anchored_def match_music_lead_def match_music_absent)
qed

lemma music_trail_id: "91 \<notin> set s \<Longrightarrow> replace_first match_music_trail [] s = s"
  by (rule replace_first_id) (simp add: match_music_trail_def match_music_absent suffix_not_mem)

lemma spaces_id: "single_spaced s \<Longrightarrow> replace_all match_spaces [32] s = s"
proof (induction s)
  case Nil
  then show ?case by simp
next
  case (Cons c s)
  then have ih: "replace_all match_spaces [32] s = s" by (simp add: single_spaced_Cons)
  show ?case
  proof (cases "is_space c")
    case False
    then show ?thesis using ih by (simp add: match_spaces_nonspace)
  next
    case True
    then have c: "c = 32" and s: "s \<noteq> [] \<longrightarrow> \<not> is_space (hd s)"
      using Cons.prems by (auto simp: single_spaced_Cons)
    have "takeWhile is_space s = []" using s by (cases s) auto
    then have "match_spaces (c # s) = Some 1" using True by (simp add: match_spaces_def)
    then show ?thesis using ih c by simp
  qed
qed

lemma lone_period_id:
  assumes "s \<noteq> [] \<longrightarrow> \<not> is_space (hd s) \<and> \<not> is_punct (hd s)"
  shows "replace_anchored match_lone_period [] s = s"
proof (cases s)
  case Nil
  then show ?thesis by (simp add: replace_anchored_def match_lone_period_def)
next
  case (Cons c cs)
  then have "\<not> is_space c" "c \<noteq> 46" using assms is_punct_46 by auto
  then show ?thesis using Cons by (simp add: replace_anchored_def match_lone_period_def)
qed

lemma lead_punct_id:
  assumes "s \<noteq> [] \<longrightarrow> \<not> is_punct (hd s)"
  shows "replace_anchored match_lead_punct [] s = s"
  using assms by (cases s) (auto simp: replace_anchored_def match_lead_punct_def)

lemma trail_punct_id:
  assumes "s \<noteq> [] \<longrightarrow> \<not> is_punct (last s)"
  shows "replace_first match_trail_punct [] s = s"
proof (rule replace_first_id)
  fix t
  assume t: "suffix t s"
  show "match_trail_punct t = None"
  proof (cases "t = []")
    case True
    then show ?thesis by (simp add: match_trail_punct_def)
  next
    case False
    then have "last t = last s" using t by (auto simp: suffix_def)
    moreover have "s \<noteq> []" using False t by (auto simp: suffix_def)
    ultimately have "\<not> is_punct (last t)" using assms by simp
    moreover have "last t \<in> set t" using False by simp
    ultimately have "\<not> list_all is_punct t" by (auto simp: list_all_iff)
    then show ?thesis by (simp add: match_trail_punct_def)
  qed
qed

lemma trim_id:
  assumes "s \<noteq> [] \<longrightarrow> \<not> is_space (hd s) \<and> \<not> is_space (last s)"
  shows "trim s = s"
proof (cases "s = []")
  case True
  then show ?thesis by (simp add: trim_def)
next
  case False
  then have h: "\<not> is_space (hd s)" and l: "\<not> is_space (last s)" using assms by auto
  have "dropWhile is_space s = s" using h False by (cases s) auto
  moreover have "dropWhile is_space (rev s) = rev s"
  proof -
    obtain a as where r: "rev s = a # as" using False by (cases "rev s") auto
    then have "a = last s" using False by (metis hd_rev list.sel(1))
    then have "\<not> is_space a" using l by simp
    then have "dropWhile is_space (a # as) = a # as" by simp
    then show ?thesis by (simp only: r)
  qed
  ultimately show ?thesis by (simp add: trim_def)
qed

text \<open>A string in clean form is a fixed point of every step.\<close>

lemma clean_steps_id:
  assumes "60 \<notin> set s" and "91 \<notin> set s" and "single_spaced s"
    and "s \<noteq> [] \<longrightarrow> \<not> is_space (hd s) \<and> \<not> is_space (last s)"
    and "s \<noteq> [] \<longrightarrow> \<not> is_punct (hd s) \<and> \<not> is_punct (last s)"
  shows "clean_steps s = s"
proof -
  have lit60: "replace_all (match_lit (js (CHR ''<'' # p))) [] s = s" for p
    using assms(1) by (simp add: js_def remove_lit_id)
  have lit91: "replace_all (match_lit (js (CHR ''['' # p))) [] s = s" for p
    using assms(2) by (simp add: js_def remove_lit_id)
  have tag: "replace_all match_tag [] s = s" using assms(2) by (rule remove_tag_id)
  have lead: "replace_anchored match_music_lead [] s = s" using assms(2) by (rule music_lead_id)
  have trail: "replace_first match_music_trail [] s = s" using assms(2) by (rule music_trail_id)
  have spaces: "replace_all match_spaces [32] s = s" using assms(3) by (rule spaces_id)
  have period: "replace_anchored match_lone_period [] s = s"
    using assms(4,5) by (intro lone_period_id) simp
  have lpunct: "replace_anchored match_lead_punct [] s = s"
    using assms(5) by (intro lead_punct_id) simp
  have tpunct: "replace_first match_trail_punct [] s = s"
    using assms(5) by (intro trail_punct_id) simp
  have trimmed: "trim s = s" using assms(4) by (rule trim_id)
  show ?thesis
    unfolding clean_steps_def Let_def
    by (simp only: lit60 lit91 tag lead trail spaces period lpunct tpunct trimmed)
qed

lemma clean_steps_form:
  "single_spaced (clean_steps s)"
  "clean_steps s \<noteq> [] \<longrightarrow> \<not> is_space (hd (clean_steps s)) \<and> \<not> is_space (last (clean_steps s))"
proof -
  show "single_spaced (clean_steps s)"
    unfolding clean_steps_def Let_def
    by (intro single_spaced_trim single_spaced_trail_punct single_spaced_anchored
        replace_spaces_single_spaced)
  show "clean_steps s \<noteq> [] \<longrightarrow> \<not> is_space (hd (clean_steps s)) \<and> \<not> is_space (last (clean_steps s))"
    unfolding clean_steps_def Let_def using trim_ends by blast
qed

text \<open>
  Claim C2, as stated, fails: the sanitizer is not idempotent. The text
  \<open> Hello. [BLANK_AUDIO]\<close> is cleaned to \<open>Hello.\<close>, since the period is followed by a
  space when the trailing punctuation is removed, and \<open>Hello.\<close> is cleaned to \<open>Hello\<close>.
\<close>

theorem cleanWhisperOutput_counterexample:
  "cleanWhisperOutput (Some (cleanWhisperOutput (Some (js '' Hello. [BLANK_AUDIO]''))))
     \<noteq> cleanWhisperOutput (Some (js '' Hello. [BLANK_AUDIO]''))"
  by (simp add: js_eval clean_eval)

text \<open>
  Claim C2, amended. The sanitizer is total, \<open>null\<close> and the empty string give the empty
  string, and \<open>sanitize(sanitize(x)) = sanitize(x)\<close> holds for every \<open>x\<close> whose sanitized
  text contains neither \<open><\<close> nor \<open>[\<close> and neither begins nor ends with one of
  \<open>. , ; : ! ?\<close>.
\<close>

theorem cleanWhisperOutput_fixed_point:
  assumes "60 \<notin> set (cleanWhisperOutput x)" and "91 \<notin> set (cleanWhisperOutput x)"
    and "cleanWhisperOutput x \<noteq> [] \<longrightarrow>
           \<not> is_punct (hd (cleanWhisperOutput x)) \<and> \<not> is_punct (last (cleanWhisperOutput x))"
  shows "cleanWhisperOutput (Some (cleanWhisperOutput x)) = cleanWhisperOutput x
       \<and> cleanWhisperOutput None = [] \<and> cleanWhisperOutput (Some []) = []"
proof (cases "cleanWhisperOutput x = []")
  case True
  then show ?thesis by (simp add: cleanWhisperOutput_def)
next
  case False
  then obtain t where x: "x = Some t" "t \<noteq> []" and y: "cleanWhisperOutput x = clean_steps t"
    by (auto simp: cleanWhisperOutput_def split: option.splits if_splits)
  have "clean_steps (clean_steps t) = clean_steps t"
    using assms False clean_steps_form[of t] unfolding y
    by (intro clean_steps_id) auto
  then show ?thesis using False y by (simp add: cleanWhisperOutput_def)
qed

text \<open>
  Claim C2, amended, at \<open> Hello,  world.\<close>: the sanitized text \<open>Hello, world\<close> is a fixed
  point.
\<close>

theorem cleanWhisperOutput_fixed_point_witness:
  "60 \<notin> set (cleanWhisperOutput (Some (js '' Hello,  world.'')))
   \<and> 91 \<notin> set (cleanWhisperOutput (Some (js '' Hello,  world.'')))
   \<and> cleanWhisperOutput (Some (js '' Hello,  world.'')) = js ''Hello, world''
   \<and> cleanWhisperOutput (Some (js ''Hello, world'')) = js ''Hello, world''"
proof -
  have c: "cleanWhisperOutput (Some (js '' Hello,  world.'')) = js ''Hello, world''"
    by (simp add: js_eval clean_eval)
  have h: "60 \<notin> set (js ''Hello, world'')" "91 \<notin> set (js ''Hello, world'')"
    "js ''Hello, world'' \<noteq> [] \<longrightarrow>
       \<not> is_punct (hd (js ''Hello, world'')) \<and> \<not> is_punct (last (js ''Hello, world''))"
    by (simp_all add: js_def is_punct_def)
  from cleanWhisperOutput_fixed_point[of "Some (js '' Hello,  world.'')"] h c
  show ?thesis by simp
qed

end
